theory Spec2Isabelle
  imports Complex_Main "HOL-Library.Product_Lexorder"
begin

section \<open>Data model of procsim.cpp\<close>

text \<open>
  The simulator keeps every instruction record in \<open>g_store\<close>, a vector of owning
  pointers that only ever grows, and all queues hold raw \<open>Inst*\<close> pointers into it.
  A pointer is modelled by the index of the record in \<open>g_store\<close> (a handle), a
  \<open>FU*\<close> by the index of the slot in \<open>fu_pool\<close>, and \<open>nullptr\<close> by \<open>None\<close>.
  All \<open>uint64_t\<close> counters are natural numbers: a counter is incremented at most
  once per loop iteration or per instruction read, so that it cannot wrap in fewer than
  \<open>2^64\<close> iterations. The sum \<open>cycle + 1\<close> that the lookahead forms from its
  argument is taken modulo \<open>2^64\<close>, as \<open>uint64_t\<close> arithmetic does. The C \<open>int\<close> values are HOL integers, except the
  functional-unit type, which \<open>fu_type_from_opcode\<close> confines to 0, 1, 2 and which
  indexes arrays: it is a natural number.
\<close>

text \<open>Modelled from the spec: \<open>proc_inst_t\<close> is declared in procsim.hpp, which is
  not part of the sources; the spec gives its fields \<open>op_code\<close>, \<open>dest_reg\<close> and
  \<open>src_reg[2]\<close> (here \<open>src_reg0\<close> and \<open>src_reg1\<close>), all of type int.\<close>

record proc_inst =
  op_code :: int
  dest_reg :: int
  src_reg0 :: int
  src_reg1 :: int

text \<open>Modelled from the spec: \<open>proc_stats_t\<close> is declared in procsim.hpp as well; the
  three averages are C floats, represented by reals (only the constant 0 and a quotient
  of two counters are ever stored in them).\<close>

record proc_stats =
  cycle_count :: nat
  retired_instruction :: nat
  avg_inst_fired :: real
  avg_inst_retired :: real
  avg_disp_size :: real
  max_disp_size :: nat

text \<open>\<open>struct FU\<close>; its fields \<open>type\<close>, \<open>inst\<close>, \<open>remaining\<close> carry the prefix
  \<open>fu_\<close> because \<open>struct Inst\<close> has a field \<open>type\<close> too.\<close>

record FU =
  fu_type :: nat
  fu_inst :: "nat option"
  fu_remaining :: int

text \<open>\<open>struct Inst\<close>; the arrays \<open>src_ready[2]\<close> and \<open>src_tag[2]\<close> are two fields
  each, \<open>type\<close> is \<open>inst_type\<close>, and \<open>fu\<close> is the optional index of the slot.\<close>

record Inst =
  raw :: proc_inst
  tag :: nat
  fetch_c :: nat
  disp_c :: nat
  sched_c :: nat
  exec_c :: nat
  state_c :: nat
  sched_ready_c :: nat
  src_ready0 :: bool
  src_ready1 :: bool
  src_tag0 :: int
  src_tag1 :: int
  issued :: bool
  waiting_bus :: bool
  enqueued_bus :: bool
  completion_c :: nat
  inst_type :: nat
  fu :: "nat option"

text \<open>The global simulation state. \<open>source\<close> is the instruction source behind
  \<open>read_instruction\<close>: the records not yet read.\<close>

record sim =
  gF :: nat
  gR :: nat
  gK :: "nat list"
  gRS_cap :: nat
  g_next_tag :: nat
  g_trace_done :: bool
  g_store :: "Inst list"
  q_dispatch :: "nat list"
  rs :: "nat list"
  st_update :: "nat list"
  bus_wait :: "nat list"
  latch_fd_cur :: "nat list"
  latch_fd_nxt :: "nat list"
  latch_ds_cur :: "nat list"
  latch_ds_nxt :: "nat list"
  latch_se_cur :: "nat list"
  latch_se_nxt :: "nat list"
  reg_map :: "int list"
  fu_pool :: "FU list"
  g_cycle :: nat
  g_retired :: nat
  g_issued_total :: nat
  g_disp_q_sum :: real
  g_disp_q_max :: nat
  source :: "proc_inst list"

datatype error = AssertionFailed

definition kMaxRegs :: int where
  "kMaxRegs = 128"

definition kTypes :: nat where
  "kTypes = 3"

definition kLatency :: "int list" where
  "kLatency = [1, 1, 1]"

definition fu_type_from_opcode :: "int \<Rightarrow> nat" where
  "fu_type_from_opcode op =
     (if op < 0 then 1 else if op \<ge> int kTypes then nat (op mod int kTypes) else nat op)"

text \<open>Modelled from the spec: \<open>read_instruction\<close> is defined outside the sources; it
  yields the next record of the trace, or signals EOF (\<open>None\<close>) once the trace is
  exhausted.\<close>

definition read_instruction :: "sim \<Rightarrow> proc_inst option \<times> sim" where
  "read_instruction s =
     (case source s of [] \<Rightarrow> (None, s) | x # xs \<Rightarrow> (Some x, s\<lparr>source := xs\<rparr>))"

text \<open>Writing through an \<open>Inst*\<close> or a \<open>FU*\<close>.\<close>

definition upd_inst :: "nat \<Rightarrow> (Inst \<Rightarrow> Inst) \<Rightarrow> sim \<Rightarrow> sim" where
  "upd_inst h f s = s\<lparr>g_store := (g_store s)[h := f (g_store s ! h)]\<rparr>"

definition upd_fu :: "nat \<Rightarrow> (FU \<Rightarrow> FU) \<Rightarrow> sim \<Rightarrow> sim" where
  "upd_fu k f s = s\<lparr>fu_pool := (fu_pool s)[k := f (fu_pool s ! k)]\<rparr>"

text \<open>\<open>std::sort\<close> with a comparator: insertion sort under the comparator's strict
  order. Every comparator of the program ends in a comparison of tags, which are unique
  among the live records, so that the sorted sequence does not depend on the algorithm.\<close>

fun insert_by :: "('a \<Rightarrow> 'a \<Rightarrow> bool) \<Rightarrow> 'a \<Rightarrow> 'a list \<Rightarrow> 'a list" where
  "insert_by lt x [] = [x]"
| "insert_by lt x (y # ys) = (if lt y x then y # insert_by lt x ys else x # y # ys)"

definition sort_by :: "('a \<Rightarrow> 'a \<Rightarrow> bool) \<Rightarrow> 'a list \<Rightarrow> 'a list" where
  "sort_by lt xs = foldr (insert_by lt) xs []"

section \<open>Utilities\<close>

definition pipeline_empty :: "sim \<Rightarrow> bool" where
  "pipeline_empty s =
     (if q_dispatch s \<noteq> [] \<or> rs s \<noteq> [] \<or> st_update s \<noteq> [] \<or> bus_wait s \<noteq> [] then False
      else if latch_fd_cur s \<noteq> [] \<or> latch_fd_nxt s \<noteq> [] \<or>
              latch_ds_cur s \<noteq> [] \<or> latch_ds_nxt s \<noteq> [] \<or>
              latch_se_cur s \<noteq> [] \<or> latch_se_nxt s \<noteq> [] then False
      else list_all (\<lambda>f. fu_inst f = None) (fu_pool s))"

definition remove_from_rs :: "nat \<Rightarrow> sim \<Rightarrow> sim" where
  "remove_from_rs h s = s\<lparr>rs := remove1 h (rs s)\<rparr>"

definition wakeup_one :: "int \<Rightarrow> nat \<Rightarrow> sim \<Rightarrow> sim" where
  "wakeup_one producer w s =
     (let s1 = (if \<not> src_ready0 (g_store s ! w) \<and> src_tag0 (g_store s ! w) = producer
                then upd_inst w (\<lambda>i. i\<lparr>src_ready0 := True, src_tag0 := -1\<rparr>) s else s)
      in if \<not> src_ready1 (g_store s1 ! w) \<and> src_tag1 (g_store s1 ! w) = producer
         then upd_inst w (\<lambda>i. i\<lparr>src_ready1 := True, src_tag1 := -1\<rparr>) s1 else s1)"

definition wakeup_rs_sources :: "int \<Rightarrow> sim \<Rightarrow> sim" where
  "wakeup_rs_sources producer s = fold (wakeup_one producer) (rs s) s"

fun find_free_from :: "nat \<Rightarrow> nat \<Rightarrow> FU list \<Rightarrow> nat option" where
  "find_free_from t k [] = None"
| "find_free_from t k (f # fs) =
     (if fu_type f = t \<and> fu_inst f = None then Some k else find_free_from t (Suc k) fs)"

definition find_free_fu :: "nat \<Rightarrow> sim \<Rightarrow> nat option" where
  "find_free_fu t s = find_free_from t 0 (fu_pool s)"

subsection \<open>The lookahead\<close>

record Candidate =
  c_inst :: nat
  c_type :: nat
  free_cycle :: nat

definition cand_less :: "Inst list \<Rightarrow> Candidate \<Rightarrow> Candidate \<Rightarrow> bool" where
  "cand_less st a b =
     (if free_cycle a = free_cycle b then tag (st ! c_inst a) < tag (st ! c_inst b)
      else free_cycle a < free_cycle b)"

definition scan_fu :: "Inst list \<Rightarrow> nat \<Rightarrow> FU \<Rightarrow> int list \<times> Candidate list
    \<Rightarrow> int list \<times> Candidate list" where
  "scan_fu st cycle f acc =
     (case acc of (free_cnt, candidates) \<Rightarrow>
       (case fu_inst f of
          None \<Rightarrow> (free_cnt[fu_type f := free_cnt ! fu_type f + 1], candidates)
        | Some h \<Rightarrow>
            if waiting_bus (st ! h)
            then (free_cnt, candidates @
                    [\<lparr>c_inst = h, c_type = fu_type f, free_cycle = completion_c (st ! h)\<rparr>])
            else if fu_remaining f = 1
            then (free_cnt, candidates @
                    [\<lparr>c_inst = h, c_type = fu_type f,
                      free_cycle = (cycle + 1) mod 2 ^ 64\<rparr>])
            else (free_cnt, candidates)))"

definition grant_loop :: "Candidate list \<Rightarrow> nat \<Rightarrow> int list \<Rightarrow> int list" where
  "grant_loop candidates grant free_cnt =
     fold (\<lambda>i fc. fc[c_type (candidates ! i) := fc ! c_type (candidates ! i) + 1])
       [0..<grant] free_cnt"

definition projected_free_fus :: "nat \<Rightarrow> sim \<Rightarrow> int list" where
  "projected_free_fus cycle s =
     (case fold (scan_fu (g_store s) cycle) (fu_pool s) ([0, 0, 0], []) of
        (free_cnt, candidates) \<Rightarrow>
          let sorted = sort_by (cand_less (g_store s)) candidates;
              grant = min (gR s) (length sorted)
          in grant_loop sorted grant free_cnt)"

section \<open>Pipeline stages\<close>

definition retire_one :: "nat \<Rightarrow> sim \<Rightarrow> sim" where
  "retire_one h s =
     (let s1 = remove_from_rs h s;
          s2 = upd_inst h (\<lambda>i. i\<lparr>issued := True\<rparr>) s1
      in s2\<lparr>g_retired := g_retired s2 + 1\<rparr>)"

definition retire_state_update :: "sim \<Rightarrow> sim" where
  "retire_state_update s =
     (if st_update s = [] then s
      else (fold retire_one (st_update s) s)\<lparr>st_update := []\<rparr>)"

definition tick_fu :: "nat \<Rightarrow> nat \<Rightarrow> sim \<Rightarrow> sim" where
  "tick_fu cycle k s =
     (case fu_inst (fu_pool s ! k) of
        None \<Rightarrow> s
      | Some h \<Rightarrow>
          if fu_remaining (fu_pool s ! k) > 0 then
            (let s1 = upd_fu k (\<lambda>f. f\<lparr>fu_remaining := fu_remaining f - 1\<rparr>) s
             in if fu_remaining (fu_pool s1 ! k) = 0 \<and> \<not> waiting_bus (g_store s1 ! h) then
                  (let s2 = (if completion_c (g_store s1 ! h) = 0
                             then upd_inst h (\<lambda>i. i\<lparr>completion_c := cycle\<rparr>) s1 else s1);
                       s3 = upd_inst h (\<lambda>i. i\<lparr>waiting_bus := True\<rparr>) s2
                   in if \<not> enqueued_bus (g_store s3 ! h)
                      then upd_inst h (\<lambda>i. i\<lparr>enqueued_bus := True\<rparr>)
                             (s3\<lparr>bus_wait := bus_wait s3 @ [h]\<rparr>)
                      else s3)
                else s1)
          else s)"

definition tick_execute_units :: "nat \<Rightarrow> sim \<Rightarrow> sim" where
  "tick_execute_units cycle s = fold (tick_fu cycle) [0..<length (fu_pool s)] s"

definition bus_less :: "Inst list \<Rightarrow> nat \<Rightarrow> nat \<Rightarrow> bool" where
  "bus_less st a b =
     (if completion_c (st ! a) = completion_c (st ! b) then tag (st ! a) < tag (st ! b)
      else completion_c (st ! a) < completion_c (st ! b))"

definition free_fu_of :: "nat \<Rightarrow> sim \<Rightarrow> sim" where
  "free_fu_of h s =
     (case fu (g_store s ! h) of
        None \<Rightarrow> s
      | Some k \<Rightarrow> upd_inst h (\<lambda>i. i\<lparr>fu := None\<rparr>)
                    (upd_fu k (\<lambda>f. f\<lparr>fu_inst := None, fu_remaining := 0\<rparr>) s))"

definition clear_reg_map :: "nat \<Rightarrow> sim \<Rightarrow> sim" where
  "clear_reg_map h s =
     (let d = dest_reg (raw (g_store s ! h))
      in if d \<ge> 0 \<and> d < kMaxRegs then
           (if reg_map s ! nat d = int (tag (g_store s ! h))
            then s\<lparr>reg_map := (reg_map s)[nat d := -1]\<rparr> else s)
         else s)"

definition broadcast_one :: "nat \<Rightarrow> nat \<Rightarrow> sim \<Rightarrow> sim" where
  "broadcast_one cycle h s =
     (let s1 = upd_inst h (\<lambda>i. i\<lparr>waiting_bus := False, enqueued_bus := False\<rparr>) s;
          s2 = free_fu_of h s1;
          s3 = clear_reg_map h s2;
          s4 = wakeup_rs_sources (int (tag (g_store s3 ! h))) s3;
          s5 = upd_inst h (\<lambda>i. i\<lparr>state_c := cycle\<rparr>) s4
      in s5\<lparr>st_update := st_update s5 @ [h]\<rparr>)"

fun broadcast_loop :: "nat \<Rightarrow> nat list \<Rightarrow> nat \<Rightarrow> nat list \<Rightarrow> sim \<Rightarrow> nat list \<times> sim" where
  "broadcast_loop cycle [] used remaining s = (remaining, s)"
| "broadcast_loop cycle (h # hs) used remaining s =
     (if used \<ge> gR s then broadcast_loop cycle hs used (remaining @ [h]) s
      else broadcast_loop cycle hs (used + 1) remaining (broadcast_one cycle h s))"

definition broadcast_results :: "nat \<Rightarrow> sim \<Rightarrow> sim" where
  "broadcast_results cycle s =
     (if bus_wait s = [] then s
      else (case broadcast_loop cycle (sort_by (bus_less (g_store s)) (bus_wait s)) 0 [] s of
              (remaining, s') \<Rightarrow> s'\<lparr>bus_wait := remaining\<rparr>))"

text \<open>\<open>start_executions\<close> asserts that \<open>find_free_fu\<close> has found a slot; the failed
  assertion is the error \<open>AssertionFailed\<close>.\<close>

definition start_one :: "nat \<Rightarrow> nat \<Rightarrow> sim \<Rightarrow> error + sim" where
  "start_one cycle h s =
     (case find_free_fu (inst_type (g_store s ! h)) s of
        None \<Rightarrow> Inl AssertionFailed
      | Some k \<Rightarrow>
          Inr (upd_inst h (\<lambda>i. i\<lparr>fu := Some k, exec_c := cycle\<rparr>)
                 (upd_fu k (\<lambda>f. f\<lparr>fu_inst := Some h,
                                   fu_remaining := kLatency ! inst_type (g_store s ! h)\<rparr>) s)))"

fun start_loop :: "nat \<Rightarrow> nat list \<Rightarrow> sim \<Rightarrow> error + sim" where
  "start_loop cycle [] s = Inr s"
| "start_loop cycle (h # hs) s =
     (case start_one cycle h s of Inl e \<Rightarrow> Inl e | Inr s' \<Rightarrow> start_loop cycle hs s')"

definition start_executions :: "nat \<Rightarrow> sim \<Rightarrow> error + sim" where
  "start_executions cycle s =
     (if latch_se_cur s = [] then Inr s
      else (case start_loop cycle (latch_se_cur s) s of
              Inl e \<Rightarrow> Inl e
            | Inr s' \<Rightarrow> Inr (s'\<lparr>latch_se_cur := []\<rparr>)))"

definition src_lookup :: "int list \<Rightarrow> int \<Rightarrow> bool \<times> int" where
  "src_lookup rm r =
     (if r < 0 \<or> r \<ge> kMaxRegs then (True, -1)
      else if rm ! nat r = -1 then (True, -1)
      else (False, rm ! nat r))"

definition insert_one :: "nat \<Rightarrow> nat \<Rightarrow> sim \<Rightarrow> sim" where
  "insert_one cycle h s =
     (let i = g_store s ! h;
          a = src_lookup (reg_map s) (src_reg0 (raw i));
          b = src_lookup (reg_map s) (src_reg1 (raw i));
          s1 = upd_inst h (\<lambda>i. i\<lparr>sched_c := cycle, sched_ready_c := cycle,
                                   src_ready0 := fst a, src_tag0 := snd a,
                                   src_ready1 := fst b, src_tag1 := snd b\<rparr>) s;
          d = dest_reg (raw i);
          s2 = (if d \<ge> 0 \<and> d < kMaxRegs
                then s1\<lparr>reg_map := (reg_map s1)[nat d := int (tag i)]\<rparr> else s1)
      in s2\<lparr>rs := rs s2 @ [h]\<rparr>)"

definition insert_into_rs :: "nat \<Rightarrow> sim \<Rightarrow> sim" where
  "insert_into_rs cycle s =
     (if latch_ds_cur s = [] then s
      else (fold (insert_one cycle) (latch_ds_cur s) s)\<lparr>latch_ds_cur := []\<rparr>)"

definition move_one :: "nat \<Rightarrow> nat \<Rightarrow> sim \<Rightarrow> sim" where
  "move_one cycle h s =
     (let s1 = upd_inst h (\<lambda>i. i\<lparr>disp_c := cycle\<rparr>) s
      in s1\<lparr>q_dispatch := q_dispatch s1 @ [h]\<rparr>)"

definition move_into_dispatch :: "nat \<Rightarrow> sim \<Rightarrow> sim" where
  "move_into_dispatch cycle s =
     (if latch_fd_cur s = [] then s
      else (fold (move_one cycle) (latch_fd_cur s) s)\<lparr>latch_fd_cur := []\<rparr>)"

fun issue_loop :: "nat \<Rightarrow> int list \<Rightarrow> nat list \<Rightarrow> int list \<Rightarrow> nat \<Rightarrow> sim \<Rightarrow> nat \<times> sim" where
  "issue_loop cycle free_next [] reserved fired s = (fired, s)"
| "issue_loop cycle free_next (h # hs) reserved fired s =
     (let i = g_store s ! h in
      if issued i then issue_loop cycle free_next hs reserved fired s
      else if cycle < sched_ready_c i then issue_loop cycle free_next hs reserved fired s
      else if \<not> (src_ready0 i \<and> src_ready1 i)
        then issue_loop cycle free_next hs reserved fired s
      else if free_next ! inst_type i - reserved ! inst_type i \<le> 0
        then issue_loop cycle free_next hs reserved fired s
      else
        (let s1 = upd_inst h (\<lambda>i. i\<lparr>issued := True\<rparr>) s
         in issue_loop cycle free_next hs
              (reserved[inst_type i := reserved ! inst_type i + 1]) (fired + 1)
              (s1\<lparr>latch_se_nxt := latch_se_nxt s1 @ [h]\<rparr>)))"

definition tag_less :: "Inst list \<Rightarrow> nat \<Rightarrow> nat \<Rightarrow> bool" where
  "tag_less st a b = (tag (st ! a) < tag (st ! b))"

definition issue_ready :: "nat \<Rightarrow> sim \<Rightarrow> nat \<times> sim" where
  "issue_ready cycle s =
     (if rs s = [] then (0, s)
      else issue_loop cycle (projected_free_fus cycle s)
             (sort_by (tag_less (g_store s)) (rs s)) [0, 0, 0] 0 s)"

function dispatch_to_schedule :: "sim \<Rightarrow> sim" where
  "dispatch_to_schedule s =
     (case q_dispatch s of
        [] \<Rightarrow> s
      | h # q \<Rightarrow>
          if length (rs s) + length (latch_ds_nxt s) \<ge> gRS_cap s then s
          else dispatch_to_schedule
                 (s\<lparr>q_dispatch := q, latch_ds_nxt := latch_ds_nxt s @ [h]\<rparr>))"
  by pat_completeness auto
termination
  by (relation "measure (\<lambda>s. length (q_dispatch s))") auto

declare dispatch_to_schedule.simps [simp del]

definition new_inst :: "proc_inst \<Rightarrow> nat \<Rightarrow> nat \<Rightarrow> Inst" where
  "new_inst r t cycle =
     \<lparr>raw = r, tag = t, fetch_c = cycle, disp_c = 0, sched_c = 0, exec_c = 0, state_c = 0,
      sched_ready_c = 0, src_ready0 = False, src_ready1 = False, src_tag0 = -1,
      src_tag1 = -1, issued = False, waiting_bus = False, enqueued_bus = False,
      completion_c = 0, inst_type = fu_type_from_opcode (op_code r), fu = None\<rparr>"

fun fetch_loop :: "nat \<Rightarrow> nat \<Rightarrow> sim \<Rightarrow> sim" where
  "fetch_loop cycle 0 s = s"
| "fetch_loop cycle (Suc n) s =
     (case read_instruction s of
        (None, s') \<Rightarrow> s'\<lparr>g_trace_done := True\<rparr>
      | (Some r, s') \<Rightarrow>
          fetch_loop cycle n
            (s'\<lparr>g_next_tag := g_next_tag s' + 1,
                latch_fd_nxt := latch_fd_nxt s' @ [length (g_store s')],
                g_store := g_store s' @ [new_inst r (g_next_tag s') cycle]\<rparr>))"

definition fetch_instructions :: "nat \<Rightarrow> sim \<Rightarrow> sim" where
  "fetch_instructions cycle s = (if g_trace_done s then s else fetch_loop cycle (gF s) s)"

definition advance_latches :: "sim \<Rightarrow> sim" where
  "advance_latches s =
     s\<lparr>latch_fd_cur := latch_fd_nxt s, latch_fd_nxt := [],
       latch_ds_cur := latch_ds_nxt s, latch_ds_nxt := [],
       latch_se_cur := latch_se_nxt s, latch_se_nxt := []\<rparr>"

section \<open>The required API\<close>

definition idle_fu :: "nat \<Rightarrow> FU" where
  "idle_fu t = \<lparr>fu_type = t, fu_inst = None, fu_remaining = 0\<rparr>"

definition setup_proc :: "nat \<Rightarrow> nat \<Rightarrow> nat \<Rightarrow> nat \<Rightarrow> nat \<Rightarrow> sim \<Rightarrow> sim" where
  "setup_proc r k0 k1 k2 f s =
     s\<lparr>gF := f, gR := (if r = 0 then 1 else r), gK := [k0, k1, k2],
       gRS_cap := 2 * (k0 + k1 + k2),
       g_next_tag := 1, g_trace_done := False, g_store := [],
       q_dispatch := [], rs := [], st_update := [], bus_wait := [],
       latch_fd_cur := [], latch_fd_nxt := [], latch_ds_cur := [], latch_ds_nxt := [],
       latch_se_cur := [], latch_se_nxt := [],
       reg_map := replicate (nat kMaxRegs) (-1),
       fu_pool := concat (map (\<lambda>t. replicate ([k0, k1, k2] ! t) (idle_fu t)) [0..<kTypes]),
       g_cycle := 0, g_retired := 0, g_issued_total := 0,
       g_disp_q_sum := 0, g_disp_q_max := 0\<rparr>"

text \<open>One iteration of the loop of \<open>run_proc\<close>, for the already incremented cycle
  number.\<close>

definition sample_disp_q :: "sim \<Rightarrow> sim" where
  "sample_disp_q s =
     s\<lparr>g_disp_q_sum := g_disp_q_sum s + real (length (q_dispatch s)),
       g_disp_q_max := max (g_disp_q_max s) (length (q_dispatch s))\<rparr>"

definition issue_stage :: "nat \<Rightarrow> sim \<Rightarrow> sim" where
  "issue_stage cycle s =
     (case issue_ready cycle s of
        (fired, s') \<Rightarrow> s'\<lparr>g_issued_total := g_issued_total s' + fired\<rparr>)"

definition back_end :: "nat \<Rightarrow> sim \<Rightarrow> sim" where
  "back_end cycle s =
     advance_latches (fetch_instructions cycle (dispatch_to_schedule
       (issue_stage cycle (sample_disp_q (move_into_dispatch cycle
          (insert_into_rs cycle s))))))"

definition proc_cycle :: "nat \<Rightarrow> sim \<Rightarrow> error + sim" where
  "proc_cycle cycle s =
     (case start_executions cycle
             (broadcast_results cycle (tick_execute_units cycle (retire_state_update s))) of
        Inl e \<Rightarrow> Inl e
      | Inr s' \<Rightarrow> Inr (back_end cycle s'))"

text \<open>The loop of \<open>run_proc\<close>. It may run forever: the value \<open>None\<close> is "does not
  return", \<open>Some (Inl e)\<close> an abort, \<open>Some (Inr (cycle, s))\<close> the normal exit.\<close>

partial_function (option) run_loop :: "nat \<Rightarrow> sim \<Rightarrow> (error + nat \<times> sim) option" where
  "run_loop cycle s =
     (if \<not> g_trace_done s \<or> \<not> pipeline_empty s then
        (case proc_cycle (cycle + 1) s of
           Inl e \<Rightarrow> Some (Inl e)
         | Inr s' \<Rightarrow> run_loop (cycle + 1) s')
      else Some (Inr (cycle, s)))"

declare run_loop.simps [code]

text \<open>\<open>run_proc\<close> and \<open>complete_proc\<close> take the statistics record by pointer; a null
  pointer is \<open>None\<close>.\<close>

definition run_exit :: "nat \<Rightarrow> sim \<Rightarrow> proc_stats \<Rightarrow> sim \<times> proc_stats option" where
  "run_exit cycle s p =
     (if g_next_tag s = 1 then (s, Some (p\<lparr>cycle_count := 0, retired_instruction := 0\<rparr>))
      else
        (let cycle' = (if cycle > 0 then cycle - 1 else cycle)
         in (s\<lparr>g_cycle := cycle'\<rparr>,
             Some (p\<lparr>cycle_count := cycle', retired_instruction := g_retired s\<rparr>))))"

definition run_proc :: "sim \<Rightarrow> proc_stats option \<Rightarrow> (error + sim \<times> proc_stats option) option" where
  "run_proc s p_stats =
     (case p_stats of
        None \<Rightarrow> Some (Inr (s, None))
      | Some p \<Rightarrow>
          (case run_loop 0 s of
             None \<Rightarrow> None
           | Some (Inl e) \<Rightarrow> Some (Inl e)
           | Some (Inr (cycle, s')) \<Rightarrow> Some (Inr (run_exit cycle s' p))))"

definition complete_proc :: "sim \<Rightarrow> proc_stats option \<Rightarrow> proc_stats option" where
  "complete_proc s p_stats =
     (case p_stats of
        None \<Rightarrow> None
      | Some p \<Rightarrow>
          if cycle_count p = 0 then
            Some (p\<lparr>avg_inst_fired := 0, avg_inst_retired := 0, avg_disp_size := 0,
                    max_disp_size := 0\<rparr>)
          else
            Some (p\<lparr>avg_inst_fired := real (g_issued_total s) / real (cycle_count p),
                    avg_inst_retired := real (retired_instruction p) / real (cycle_count p),
                    avg_disp_size := g_disp_q_sum s / real (cycle_count p),
                    max_disp_size := g_disp_q_max s\<rparr>))"


section \<open>Driver and observations\<close>

text \<open>Modelled from the spec: the driver that owns the three entry points is not part of
  the sources. By the spec's lifecycle it calls setup, run and complete, in this order.
  Before \<open>setup_proc\<close> the globals hold their static initialisers; the macros
  \<open>DEFAULT_F\<close>, \<open>DEFAULT_R\<close>, \<open>DEFAULT_K0\<close>, \<open>DEFAULT_K1\<close>, \<open>DEFAULT_K2\<close> of
  procsim.hpp are not known and \<open>setup_proc\<close> overwrites them: they are parameters
  that the driver below sets to 0.\<close>

definition globals_at_start :: "nat \<Rightarrow> nat \<Rightarrow> nat list \<Rightarrow> proc_inst list \<Rightarrow> sim" where
  "globals_at_start dF dR dK tr =
     \<lparr>gF = dF, gR = dR, gK = dK, gRS_cap = 0, g_next_tag = 1, g_trace_done = False,
      g_store = [], q_dispatch = [], rs = [], st_update = [], bus_wait = [],
      latch_fd_cur = [], latch_fd_nxt = [], latch_ds_cur = [], latch_ds_nxt = [],
      latch_se_cur = [], latch_se_nxt = [], reg_map = replicate (nat kMaxRegs) 0,
      fu_pool = [], g_cycle = 0, g_retired = 0, g_issued_total = 0, g_disp_q_sum = 0,
      g_disp_q_max = 0, source = tr\<rparr>"

definition stats0 :: proc_stats where
  "stats0 = \<lparr>cycle_count = 0, retired_instruction = 0, avg_inst_fired = 0,
     avg_inst_retired = 0, avg_disp_size = 0, max_disp_size = 0\<rparr>"

definition boot :: "nat \<Rightarrow> nat \<Rightarrow> nat \<Rightarrow> nat \<Rightarrow> nat \<Rightarrow> proc_inst list \<Rightarrow> sim" where
  "boot r k0 k1 k2 f tr = setup_proc r k0 k1 k2 f (globals_at_start 0 0 [0, 0, 0] tr)"

definition simulate :: "nat \<Rightarrow> nat \<Rightarrow> nat \<Rightarrow> nat \<Rightarrow> nat \<Rightarrow> proc_inst list
    \<Rightarrow> (error + sim \<times> proc_stats option) option" where
  "simulate r k0 k1 k2 f tr =
     (case run_proc (boot r k0 k1 k2 f tr) (Some stats0) of
        None \<Rightarrow> None
      | Some (Inl e) \<Rightarrow> Some (Inl e)
      | Some (Inr (s, p)) \<Rightarrow> Some (Inr (s, complete_proc s p)))"

text \<open>What a finished simulation reports: a field of the statistics record, and a record
  of the instruction store.\<close>

definition stat_of :: "(proc_stats \<Rightarrow> 'a) \<Rightarrow> (error + sim \<times> proc_stats option) option
    \<Rightarrow> 'a option" where
  "stat_of f r = (case r of Some (Inr (s, Some p)) \<Rightarrow> Some (f p) | _ \<Rightarrow> None)"

definition inst_of :: "nat \<Rightarrow> (Inst \<Rightarrow> 'a) \<Rightarrow> (error + sim \<times> proc_stats option) option
    \<Rightarrow> 'a option" where
  "inst_of h f r =
     (case r of
        Some (Inr (s, p)) \<Rightarrow> if h < length (g_store s) then Some (f (g_store s ! h)) else None
      | _ \<Rightarrow> None)"

text \<open>The state at the head of the loop of \<open>run_proc\<close> after \<open>n\<close> iterations, together
  with the cycle counter; \<open>None\<close> when the loop does not get that far.\<close>

fun loop_iter :: "nat \<Rightarrow> nat \<Rightarrow> sim \<Rightarrow> (nat \<times> sim) option" where
  "loop_iter 0 cycle s = Some (cycle, s)"
| "loop_iter (Suc n) cycle s =
     (if \<not> g_trace_done s \<or> \<not> pipeline_empty s then
        (case proc_cycle (cycle + 1) s of
           Inl e \<Rightarrow> None
         | Inr s' \<Rightarrow> loop_iter n (cycle + 1) s')
      else None)"

text \<open>Instruction \<open>h\<close> has its \<open>issued\<close> flag set by the issue stage of cycle \<open>n\<close>:
  the record exists and is unissued when the cycle begins, and is issued when the
  broadcast, start, insert and issue stages of that cycle are done. Instruction \<open>h\<close>
  starts to execute in cycle \<open>n\<close>: it holds a unit, with \<open>exec_c = n\<close>, when that
  cycle is done. Instruction \<open>h\<close> enters state update in cycle \<open>n\<close>: that cycle's
  broadcast stage puts it on the state-update list with \<open>state_c = n\<close>.\<close>

definition is_issued :: "nat \<Rightarrow> sim \<Rightarrow> bool" where
  "is_issued h s = (h < length (g_store s) \<and> issued (g_store s ! h))"

definition issued_in_cycle :: "nat \<Rightarrow> nat \<Rightarrow> sim \<Rightarrow> bool" where
  "issued_in_cycle n h s0 =
     (case loop_iter (n - 1) 0 s0 of
        None \<Rightarrow> False
      | Some (c, a) \<Rightarrow>
          (case loop_iter n 0 s0 of
             None \<Rightarrow> False
           | Some (c', b) \<Rightarrow> 0 < n \<and> \<not> is_issued h a \<and> is_issued h b \<and> h \<in> set (latch_se_cur b)))"

definition state_update_in_cycle :: "nat \<Rightarrow> nat \<Rightarrow> sim \<Rightarrow> bool" where
  "state_update_in_cycle n h s0 =
     (case loop_iter n 0 s0 of
        None \<Rightarrow> False
      | Some (c, s) \<Rightarrow> h < length (g_store s) \<and> h \<in> set (st_update s) \<and>
                       state_c (g_store s ! h) = n)"

definition started_in_cycle :: "nat \<Rightarrow> nat \<Rightarrow> sim \<Rightarrow> bool" where
  "started_in_cycle n h s0 =
     (case loop_iter n 0 s0 of
        None \<Rightarrow> False
      | Some (c, s) \<Rightarrow> h < length (g_store s) \<and> fu (g_store s ! h) \<noteq> None \<and>
                       exec_c (g_store s ! h) = n)"

text \<open>Modelled from the spec: the cycle the spec gives to a broadcast. Its law for the
  run of one instruction numbers the stages \<open>exec@4, broadcast@4, state-update@5\<close>, where
  the record of that run has \<open>exec_c = 4\<close> and \<open>state_c = 5\<close>: the spec counts the
  broadcast of a one-cycle instruction in the cycle in which the instruction executes,
  and the state update, which the broadcast stage of the next loop iteration enters in
  \<open>state_c\<close>, one cycle later.\<close>

definition broadcasts_at :: "nat \<Rightarrow> nat \<Rightarrow> sim \<Rightarrow> bool" where
  "broadcasts_at n h s0 = (started_in_cycle n h s0 \<and> state_update_in_cycle (n + 1) h s0)"

definition instr :: "int \<Rightarrow> int \<Rightarrow> int \<Rightarrow> int \<Rightarrow> proc_inst" where
  "instr opc d s0 s1 = \<lparr>op_code = opc, dest_reg = d, src_reg0 = s0, src_reg1 = s1\<rparr>"


section \<open>Traces of the scenarios\<close>

text \<open>One instruction of type 0 without destination and sources; the two instructions of
  the spec's first scenario, the second reading register 1 that the first writes; two
  independent instructions, of type 1 and of type 0; and four independent instructions,
  two of type 0 followed by two of type 1.\<close>

definition trace_single :: "proc_inst list" where
  "trace_single = [instr 0 (-1) (-1) (-1)]"

definition trace_raw :: "proc_inst list" where
  "trace_raw = [instr 0 1 (-1) (-1), instr 0 2 1 (-1)]"

definition trace_swapped :: "proc_inst list" where
  "trace_swapped = [instr 1 (-1) (-1) (-1), instr 0 (-1) (-1) (-1)]"

definition trace_mixed :: "proc_inst list" where
  "trace_mixed = [instr 0 (-1) (-1) (-1), instr 0 (-1) (-1) (-1),
                  instr 1 (-1) (-1) (-1), instr 1 (-1) (-1) (-1)]"

section \<open>The reference definition of the lookahead\<close>

text \<open>The lookahead as the spec words it (4.H), to be compared with
  \<open>projected_free_fus\<close>. A candidate is a busy unit whose instruction waits for the bus
  (free cycle \<open>completion_c\<close>) or whose \<open>remaining\<close> is 1 (free cycle \<open>cycle + 1\<close>, a
  cycle number like \<open>cycle_count\<close> and as such an unsigned 64-bit value, so that the
  sum is taken modulo \<open>2^64\<close>).\<close>

definition candidate_of :: "Inst list \<Rightarrow> nat \<Rightarrow> FU \<Rightarrow> Candidate list" where
  "candidate_of st cycle f =
     (case fu_inst f of
        None \<Rightarrow> []
      | Some h \<Rightarrow>
          if waiting_bus (st ! h)
          then [\<lparr>c_inst = h, c_type = fu_type f, free_cycle = completion_c (st ! h)\<rparr>]
          else if fu_remaining f = 1
          then [\<lparr>c_inst = h, c_type = fu_type f,
                 free_cycle = (cycle + 1) mod 2 ^ 64\<rparr>]
          else [])"

definition candidates_of :: "Inst list \<Rightarrow> nat \<Rightarrow> FU list \<Rightarrow> Candidate list" where
  "candidates_of st cycle pool = concat (map (candidate_of st cycle) pool)"

text \<open>The candidates are sorted by free cycle ascending, then tag ascending: the order
  is that of the pairs \<open>(free_cycle, tag)\<close>, compared lexicographically, and the sorting
  is the library's \<open>sort_key\<close>, which returns the ascending arrangement of its argument.
  The first \<open>min R n\<close> of the \<open>n\<close> sorted candidates are granted.\<close>

definition candidate_key :: "Inst list \<Rightarrow> Candidate \<Rightarrow> nat \<times> nat" where
  "candidate_key st c = (free_cycle c, tag (st ! c_inst c))"

definition granted_candidates :: "nat \<Rightarrow> sim \<Rightarrow> Candidate list" where
  "granted_candidates cycle s =
     (let cs = candidates_of (g_store s) cycle (fu_pool s)
      in take (min (gR s) (length cs)) (sort_key (candidate_key (g_store s)) cs))"

text \<open>An idle unit counts as free of its type, and so does each granted candidate.\<close>

definition idle_of_type :: "nat \<Rightarrow> FU list \<Rightarrow> nat" where
  "idle_of_type t pool = length (filter (\<lambda>f. fu_inst f = None \<and> fu_type f = t) pool)"

definition lookahead_reference :: "nat \<Rightarrow> sim \<Rightarrow> nat \<Rightarrow> int" where
  "lookahead_reference cycle s t =
     int (idle_of_type t (fu_pool s)) +
     int (length (filter (\<lambda>c. c_type c = t) (granted_candidates cycle s)))"

text \<open>A pool as \<open>setup_proc\<close> builds it and the stages maintain it: every unit has one
  of the three types, and a held instruction is a record of the store.\<close>

definition pool_ok :: "sim \<Rightarrow> bool" where
  "pool_ok s =
     list_all (\<lambda>f. fu_type f < kTypes \<and>
                 (case fu_inst f of None \<Rightarrow> True | Some h \<Rightarrow> h < length (g_store s)))
       (fu_pool s)"

section \<open>Predicates on states\<close>

text \<open>The state reached after \<open>n\<close> iterations (the start state if the loop stops
  earlier), for statements about concrete runs.\<close>

definition state_after :: "nat \<Rightarrow> sim \<Rightarrow> sim" where
  "state_after n s0 = (case loop_iter n 0 s0 of Some (c, s) \<Rightarrow> s | None \<Rightarrow> s0)"

text \<open>Nothing is in flight: every queue and latch is empty and every unit is idle.\<close>

definition quiet :: "sim \<Rightarrow> bool" where
  "quiet s =
     (q_dispatch s = [] \<and> rs s = [] \<and> st_update s = [] \<and> bus_wait s = [] \<and>
      latch_fd_cur s = [] \<and> latch_fd_nxt s = [] \<and> latch_ds_cur s = [] \<and>
      latch_ds_nxt s = [] \<and> latch_se_cur s = [] \<and> latch_se_nxt s = [] \<and>
      list_all (\<lambda>f. fu_inst f = None) (fu_pool s))"

section \<open>The phases of the one-instruction run\<close>

text \<open>What stays fixed once the only instruction has been fetched: the configuration
  admits it (a fetch width, a bus, two places in the reservation station, a first unit
  of type 0 and otherwise idle units), the source is exhausted, and the store holds
  the one record, of type 0 and without registers.\<close>

definition single_cfg :: "sim \<Rightarrow> bool" where
  "single_cfg s =
     (0 < gF s \<and> 0 < gR s \<and> 2 \<le> gRS_cap s \<and> fu_pool s \<noteq> [] \<and>
      fu_type (hd (fu_pool s)) = 0 \<and> list_all (\<lambda>f. fu_inst f = None) (tl (fu_pool s)) \<and>
      source s = [] \<and> length (g_store s) = 1 \<and> g_next_tag s = 2 \<and>
      inst_type (g_store s ! 0) = 0 \<and> tag (g_store s ! 0) = 1 \<and>
      dest_reg (raw (g_store s ! 0)) = -1 \<and> src_reg0 (raw (g_store s ! 0)) = -1 \<and>
      src_reg1 (raw (g_store s ! 0)) = -1 \<and> q_dispatch s = [] \<and> bus_wait s = [] \<and>
      latch_fd_nxt s = [] \<and> latch_ds_nxt s = [] \<and> latch_se_nxt s = [])"

definition fresh_inst :: "Inst \<Rightarrow> bool" where
  "fresh_inst i = (\<not> waiting_bus i \<and> \<not> enqueued_bus i \<and> completion_c i = 0 \<and> fu i = None)"

text \<open>After cycle 1 the record is in the fetch latch, after cycle 2 in the dispatch
  latch, after cycle 3 in the reservation station and, issued, in the execute latch,
  after cycle 4 in the first unit, after cycle 5 on the state-update list, and after
  cycle 6 it is retired.\<close>

definition phase1 :: "sim \<Rightarrow> bool" where
  "phase1 s =
     (single_cfg s \<and> fu_inst (hd (fu_pool s)) = None \<and> latch_fd_cur s = [0] \<and>
      latch_ds_cur s = [] \<and> latch_se_cur s = [] \<and> rs s = [] \<and> st_update s = [] \<and>
      g_retired s = 0 \<and> \<not> issued (g_store s ! 0) \<and> fresh_inst (g_store s ! 0))"

definition phase2 :: "sim \<Rightarrow> bool" where
  "phase2 s =
     (single_cfg s \<and> fu_inst (hd (fu_pool s)) = None \<and> latch_fd_cur s = [] \<and>
      latch_ds_cur s = [0] \<and> latch_se_cur s = [] \<and> rs s = [] \<and> st_update s = [] \<and>
      g_retired s = 0 \<and> \<not> issued (g_store s ! 0) \<and> fresh_inst (g_store s ! 0) \<and>
      g_trace_done s)"

definition phase3 :: "sim \<Rightarrow> bool" where
  "phase3 s =
     (single_cfg s \<and> fu_inst (hd (fu_pool s)) = None \<and> latch_fd_cur s = [] \<and>
      latch_ds_cur s = [] \<and> latch_se_cur s = [0] \<and> rs s = [0] \<and> st_update s = [] \<and>
      g_retired s = 0 \<and> issued (g_store s ! 0) \<and> fresh_inst (g_store s ! 0) \<and>
      src_ready0 (g_store s ! 0) \<and> src_ready1 (g_store s ! 0) \<and> g_trace_done s)"

definition phase4 :: "sim \<Rightarrow> bool" where
  "phase4 s =
     (single_cfg s \<and> fu_inst (hd (fu_pool s)) = Some 0 \<and>
      fu_remaining (hd (fu_pool s)) = 1 \<and> latch_fd_cur s = [] \<and>
      latch_ds_cur s = [] \<and> latch_se_cur s = [] \<and> rs s = [0] \<and> st_update s = [] \<and>
      g_retired s = 0 \<and> issued (g_store s ! 0) \<and> \<not> waiting_bus (g_store s ! 0) \<and>
      \<not> enqueued_bus (g_store s ! 0) \<and> completion_c (g_store s ! 0) = 0 \<and>
      fu (g_store s ! 0) = Some 0 \<and> src_ready0 (g_store s ! 0) \<and>
      src_ready1 (g_store s ! 0) \<and> g_trace_done s)"

definition phase5 :: "sim \<Rightarrow> bool" where
  "phase5 s =
     (single_cfg s \<and> fu_inst (hd (fu_pool s)) = None \<and> latch_fd_cur s = [] \<and>
      latch_ds_cur s = [] \<and> latch_se_cur s = [] \<and> rs s = [0] \<and> st_update s = [0] \<and>
      g_retired s = 0 \<and> issued (g_store s ! 0) \<and> g_trace_done s)"

definition phase6 :: "sim \<Rightarrow> bool" where
  "phase6 s = (quiet s \<and> g_trace_done s \<and> g_retired s = 1 \<and> g_next_tag s = 2)"

section \<open>Well-formed states\<close>

text \<open>The instructions on their way to retirement (every fetched instruction is in
  exactly one of these lists until it retires), and the issued instructions outside the
  units.\<close>

definition inflight :: "sim \<Rightarrow> nat list" where
  "inflight s =
     latch_fd_nxt s @ latch_fd_cur s @ latch_ds_nxt s @ q_dispatch s @ latch_ds_cur s @ rs s"

definition in_exec :: "sim \<Rightarrow> nat list" where
  "in_exec s = latch_se_nxt s @ latch_se_cur s @ st_update s"

text \<open>Every fetched instruction is in flight exactly once or retired.\<close>

definition inv_flow :: "sim \<Rightarrow> bool" where
  "inv_flow s =
     (distinct (inflight s) \<and> (\<forall>h \<in> set (inflight s). h < length (g_store s)) \<and>
      g_retired s + length (inflight s) = length (g_store s))"

text \<open>Tags count the records from 1, and every record and every unit has one of the
  three types.\<close>

definition inv_tags :: "sim \<Rightarrow> bool" where
  "inv_tags s =
     (g_next_tag s = length (g_store s) + 1 \<and>
      (\<forall>h \<in> set [0..<length (g_store s)].
         tag (g_store s ! h) = h + 1 \<and> inst_type (g_store s ! h) < kTypes))"

definition inv_pool :: "sim \<Rightarrow> bool" where
  "inv_pool s = (\<forall>k \<in> set [0..<length (fu_pool s)]. fu_type (fu_pool s ! k) < kTypes)"

text \<open>An issued instruction outside the units is in the execute latch or on the
  state-update list, once, and stays in the reservation station.\<close>

definition inv_exec :: "sim \<Rightarrow> bool" where
  "inv_exec s =
     (distinct (in_exec s) \<and>
      (\<forall>h \<in> set (in_exec s).
         h \<in> set (rs s) \<and> issued (g_store s ! h) \<and> fu (g_store s ! h) = None))"

text \<open>The unit's \<open>inst\<close> and the instruction's \<open>fu\<close> point at each other, and an
  instruction in a unit is issued and in the reservation station.\<close>

definition inv_links :: "sim \<Rightarrow> bool" where
  "inv_links s =
     ((\<forall>k \<in> set [0..<length (fu_pool s)].
         case fu_inst (fu_pool s ! k) of
           None \<Rightarrow> True
         | Some h \<Rightarrow> h < length (g_store s) \<and> fu (g_store s ! h) = Some k) \<and>
      (\<forall>h \<in> set [0..<length (g_store s)].
         case fu (g_store s ! h) of
           None \<Rightarrow> True
         | Some k \<Rightarrow> k < length (fu_pool s) \<and> fu_inst (fu_pool s ! k) = Some h))"

definition inv_held :: "sim \<Rightarrow> bool" where
  "inv_held s =
     (\<forall>h \<in> set [0..<length (g_store s)]. fu (g_store s ! h) \<noteq> None \<longrightarrow>
        h \<in> set (rs s) \<and> issued (g_store s ! h))"

text \<open>A busy unit either executes (one tick remains, and its instruction has not
  completed) or is done and waits, with its instruction, for the bus.\<close>

definition executing :: "sim \<Rightarrow> nat \<Rightarrow> nat \<Rightarrow> bool" where
  "executing s k h =
     (fu_remaining (fu_pool s ! k) = 1 \<and> \<not> waiting_bus (g_store s ! h) \<and>
      \<not> enqueued_bus (g_store s ! h) \<and> completion_c (g_store s ! h) = 0 \<and>
      h \<notin> set (bus_wait s))"

definition waiting :: "nat \<Rightarrow> sim \<Rightarrow> nat \<Rightarrow> nat \<Rightarrow> bool" where
  "waiting n s k h =
     (fu_remaining (fu_pool s ! k) = 0 \<and> waiting_bus (g_store s ! h) \<and>
      enqueued_bus (g_store s ! h) \<and> h \<in> set (bus_wait s) \<and>
      1 \<le> completion_c (g_store s ! h) \<and> completion_c (g_store s ! h) \<le> n)"

definition inv_fu :: "nat \<Rightarrow> sim \<Rightarrow> bool" where
  "inv_fu n s =
     (\<forall>k \<in> set [0..<length (fu_pool s)].
        case fu_inst (fu_pool s ! k) of
          None \<Rightarrow> True
        | Some h \<Rightarrow> executing s k h \<or> waiting n s k h)"

definition inv_bus :: "sim \<Rightarrow> bool" where
  "inv_bus s =
     (distinct (bus_wait s) \<and>
      (\<forall>h \<in> set (bus_wait s). h < length (g_store s) \<and> fu (g_store s ! h) \<noteq> None))"

text \<open>An instruction outside the units is not on the bus, and one that has not begun
  to execute has no completion cycle.\<close>

definition inv_idle :: "sim \<Rightarrow> bool" where
  "inv_idle s =
     (\<forall>h \<in> set [0..<length (g_store s)].
        (fu (g_store s ! h) = None \<longrightarrow>
           \<not> waiting_bus (g_store s ! h) \<and> \<not> enqueued_bus (g_store s ! h)) \<and>
        (\<not> issued (g_store s ! h) \<or> h \<in> set (latch_se_nxt s @ latch_se_cur s) \<longrightarrow>
           completion_c (g_store s ! h) = 0))"

text \<open>The instructions on the state-update list have broadcast in cycle \<open>n\<close>, not
  before they completed.\<close>

definition inv_upd :: "nat \<Rightarrow> sim \<Rightarrow> bool" where
  "inv_upd n s =
     (\<forall>h \<in> set (st_update s).
        1 \<le> completion_c (g_store s ! h) \<and>
        completion_c (g_store s ! h) \<le> state_c (g_store s ! h) \<and>
        state_c (g_store s ! h) = n)"

text \<open>The store and the unread part of the source make up the trace, by their
  lengths.\<close>

definition inv_src :: "proc_inst list \<Rightarrow> sim \<Rightarrow> bool" where
  "inv_src tr s =
     (length (g_store s) + length (source s) = length tr \<and>
      (g_trace_done s \<longrightarrow> source s = []))"

definition wf :: "proc_inst list \<Rightarrow> nat \<Rightarrow> sim \<Rightarrow> bool" where
  "wf tr n s =
     (inv_flow s \<and> inv_tags s \<and> inv_pool s \<and> inv_exec s \<and> inv_links s \<and> inv_held s \<and>
      inv_fu n s \<and> inv_bus s \<and> inv_idle s \<and> inv_upd n s \<and> inv_src tr s)"

text \<open>The part of well-formedness that concerns the units, the bus and the issued
  instructions.\<close>

definition tickQ :: "nat \<Rightarrow> sim \<Rightarrow> bool" where
  "tickQ n s = (inv_links s \<and> inv_held s \<and> inv_exec s \<and> inv_fu n s \<and> inv_bus s \<and>
                inv_idle s \<and> inv_upd n s)"

text \<open>The number of instructions of type \<open>t\<close> in a list of handles, and the promise of
  the lookahead: at the head of the loop, the execute latch holds, per type, no more
  instructions than the lookahead of the cycle just finished has projected.\<close>

definition of_type :: "sim \<Rightarrow> nat \<Rightarrow> nat list \<Rightarrow> nat" where
  "of_type s t hs = length (filter (\<lambda>h. inst_type (g_store s ! h) = t) hs)"

definition projected_ok :: "nat \<Rightarrow> sim \<Rightarrow> bool" where
  "projected_ok n s =
     (\<forall>t \<in> set [0..<kTypes].
        int (of_type s t (latch_se_cur s)) \<le> projected_free_fus n s ! t)"

definition loop_head :: "proc_inst list \<Rightarrow> nat \<Rightarrow> sim \<Rightarrow> bool" where
  "loop_head tr n s =
     (wf tr n s \<and> projected_ok n s \<and>
      latch_fd_nxt s = [] \<and> latch_ds_nxt s = [] \<and> latch_se_nxt s = [])"

section \<open>Basic facts\<close>

lemma setup_proc_source_only:
  "setup_proc r k0 k1 k2 f (s\<lparr>source := tr\<rparr>) = boot r k0 k1 k2 f tr"
  by (simp add: setup_proc_def boot_def globals_at_start_def)

lemma run_loop_Some_iter:
  assumes "run_loop c s = Some y"
  shows "\<forall>c' s'. y = Inr (c', s') \<longrightarrow>
     (\<exists>n. loop_iter n c s = Some (c', s') \<and> g_trace_done s' \<and> pipeline_empty s')"
proof (rule run_loop.raw_induct[where P = "\<lambda>c s y. \<forall>c' s'. y = Inr (c', s') \<longrightarrow>
     (\<exists>n. loop_iter n c s = Some (c', s') \<and> g_trace_done s' \<and> pipeline_empty s')", OF _ assms])
  fix f :: "nat \<Rightarrow> sim \<Rightarrow> (error + nat \<times> sim) option" and c s y
  assume IH: "\<And>c s y. f c s = Some y \<Longrightarrow> \<forall>c' s'. y = Inr (c', s') \<longrightarrow>
     (\<exists>n. loop_iter n c s = Some (c', s') \<and> g_trace_done s' \<and> pipeline_empty s')"
  assume body: "(if \<not> g_trace_done s \<or> \<not> pipeline_empty s
      then case proc_cycle (c + 1) s of Inl e \<Rightarrow> Some (Inl e) | Inr s' \<Rightarrow> f (c + 1) s'
      else Some (Inr (c, s))) = Some y"
  show "\<forall>c' s'. y = Inr (c', s') \<longrightarrow>
     (\<exists>n. loop_iter n c s = Some (c', s') \<and> g_trace_done s' \<and> pipeline_empty s')"
  proof (intro allI impI)
    fix c' s' assume y: "y = Inr (c', s')"
    show "\<exists>n. loop_iter n c s = Some (c', s') \<and> g_trace_done s' \<and> pipeline_empty s'"
    proof (cases "\<not> g_trace_done s \<or> \<not> pipeline_empty s")
      case True
      then obtain s1 where s1: "proc_cycle (c + 1) s = Inr s1" "f (c + 1) s1 = Some y"
        using body y by (auto split: sum.splits)
      from IH[OF s1(2)] y obtain n where
        "loop_iter n (c + 1) s1 = Some (c', s') \<and> g_trace_done s' \<and> pipeline_empty s'" by blast
      then have "loop_iter (Suc n) c s = Some (c', s') \<and> g_trace_done s' \<and> pipeline_empty s'"
        using True s1(1) by simp
      then show ?thesis by blast
    next
      case False
      then have "c' = c" "s' = s" using body y by auto
      then have "loop_iter 0 c s = Some (c', s') \<and> g_trace_done s' \<and> pipeline_empty s'"
        using False by simp
      then show ?thesis by blast
    qed
  qed
qed

lemma loop_iter_run_loop:
  "loop_iter n c s = Some (c', s') \<Longrightarrow> g_trace_done s' \<Longrightarrow> pipeline_empty s' \<Longrightarrow>
     run_loop c s = Some (Inr (c', s'))"
proof (induction n arbitrary: c s)
  case 0
  then show ?case by (simp add: run_loop.simps)
next
  case (Suc n)
  then show ?case
    by (subst run_loop.simps) (auto split: if_splits sum.splits)
qed

lemma run_loop_diverges:
  assumes inv: "I c s"
    and step: "\<And>c s. I c s \<Longrightarrow>
       (\<not> g_trace_done s \<or> \<not> pipeline_empty s) \<and>
       (\<exists>s'. proc_cycle (c + 1) s = Inr s' \<and> I (c + 1) s')"
  shows "run_loop c s = None"
proof (rule ccontr)
  assume "run_loop c s \<noteq> None"
  then obtain y where y: "run_loop c s = Some y" by auto
  have "\<not> I c s"
  proof (rule run_loop.raw_induct[where P = "\<lambda>c s y. \<not> I c s", OF _ y])
    fix f :: "nat \<Rightarrow> sim \<Rightarrow> (error + nat \<times> sim) option" and c s y
    assume IH: "\<And>c s y. f c s = Some y \<Longrightarrow> \<not> I c s"
    assume body: "(if \<not> g_trace_done s \<or> \<not> pipeline_empty s
      then case proc_cycle (c + 1) s of Inl e \<Rightarrow> Some (Inl e) | Inr s' \<Rightarrow> f (c + 1) s'
      else Some (Inr (c, s))) = Some y"
    show "\<not> I c s"
    proof
      assume i: "I c s"
      from step[OF i] obtain s' where
        c: "\<not> g_trace_done s \<or> \<not> pipeline_empty s" and
        s': "proc_cycle (c + 1) s = Inr s'" "I (c + 1) s'" by blast
      from body c s'(1) have "f (c + 1) s' = Some y" by auto
      from IH[OF this] s'(2) show False by simp
    qed
  qed
  with inv show False by simp
qed


lemma loop_iter_invariant:
  assumes "loop_iter n c s = Some (c', s')" and "I c s"
    and "\<And>c s s'. I c s \<Longrightarrow> proc_cycle (c + 1) s = Inr s' \<Longrightarrow> I (c + 1) s'"
  shows "I c' s'"
  using assms(1,2)
proof (induction n arbitrary: c s)
  case 0
  then show ?case by simp
next
  case (Suc n)
  from Suc.prems(1) obtain s1 where s1: "proc_cycle (c + 1) s = Inr s1"
    "loop_iter n (c + 1) s1 = Some (c', s')"
    by (auto split: if_splits sum.splits)
  from assms(3)[OF Suc.prems(2) s1(1)] have "I (c + 1) s1" .
  from Suc.IH[OF s1(2) this] show ?case .
qed

lemma loop_iter_cycle: "loop_iter n c s = Some (c', s') \<Longrightarrow> c' = c + n"
proof (induction n arbitrary: c s)
  case 0
  then show ?case by simp
next
  case (Suc n)
  from Suc.prems obtain s1 where "loop_iter n (c + 1) s1 = Some (c', s')"
    by (auto split: if_splits sum.splits)
  from Suc.IH[OF this] show ?case by simp
qed

section \<open>Evaluating the wrapped sum\<close>

text \<open>For evaluation, the sum modulo \<open>2^64\<close> is computed on integers, whose numerals
  are binary.\<close>

lemma wrap_int: "(n + 1) mod 2 ^ 64 = nat ((int n + 1) mod 2 ^ 64)"
  by (simp add: nat_mod_distrib nat_add_distrib nat_power_eq)

lemma scan_fu_code [code]:
  "scan_fu st cycle f acc =
     (case acc of (free_cnt, candidates) \<Rightarrow>
       (case fu_inst f of
          None \<Rightarrow> (free_cnt[fu_type f := free_cnt ! fu_type f + 1], candidates)
        | Some h \<Rightarrow>
            if waiting_bus (st ! h)
            then (free_cnt, candidates @
                    [\<lparr>c_inst = h, c_type = fu_type f, free_cycle = completion_c (st ! h)\<rparr>])
            else if fu_remaining f = 1
            then (free_cnt, candidates @
                    [\<lparr>c_inst = h, c_type = fu_type f,
                      free_cycle = nat ((int cycle + 1) mod 2 ^ 64)\<rparr>])
            else (free_cnt, candidates)))"
  unfolding scan_fu_def wrap_int ..

lemma candidate_of_code [code]:
  "candidate_of st cycle f =
     (case fu_inst f of
        None \<Rightarrow> []
      | Some h \<Rightarrow>
          if waiting_bus (st ! h)
          then [\<lparr>c_inst = h, c_type = fu_type f, free_cycle = completion_c (st ! h)\<rparr>]
          else if fu_remaining f = 1
          then [\<lparr>c_inst = h, c_type = fu_type f,
                 free_cycle = nat ((int cycle + 1) mod 2 ^ 64)\<rparr>]
          else [])"
  unfolding candidate_of_def wrap_int ..

lemma wrap_small: "c + 1 < 2 ^ 64 \<Longrightarrow> (c + 1) mod 2 ^ 64 = c + (1::nat)"
  by simp

section \<open>What each stage leaves unchanged\<close>

lemma upd_inst_frame [simp]:
  "gF (upd_inst h f s) = gF s"
  "gR (upd_inst h f s) = gR s"
  "gK (upd_inst h f s) = gK s"
  "gRS_cap (upd_inst h f s) = gRS_cap s"
  "g_next_tag (upd_inst h f s) = g_next_tag s"
  "g_trace_done (upd_inst h f s) = g_trace_done s"
  "q_dispatch (upd_inst h f s) = q_dispatch s"
  "rs (upd_inst h f s) = rs s"
  "st_update (upd_inst h f s) = st_update s"
  "bus_wait (upd_inst h f s) = bus_wait s"
  "latch_fd_cur (upd_inst h f s) = latch_fd_cur s"
  "latch_fd_nxt (upd_inst h f s) = latch_fd_nxt s"
  "latch_ds_cur (upd_inst h f s) = latch_ds_cur s"
  "latch_ds_nxt (upd_inst h f s) = latch_ds_nxt s"
  "latch_se_cur (upd_inst h f s) = latch_se_cur s"
  "latch_se_nxt (upd_inst h f s) = latch_se_nxt s"
  "reg_map (upd_inst h f s) = reg_map s"
  "fu_pool (upd_inst h f s) = fu_pool s"
  "g_cycle (upd_inst h f s) = g_cycle s"
  "g_retired (upd_inst h f s) = g_retired s"
  "g_issued_total (upd_inst h f s) = g_issued_total s"
  "g_disp_q_sum (upd_inst h f s) = g_disp_q_sum s"
  "g_disp_q_max (upd_inst h f s) = g_disp_q_max s"
  "source (upd_inst h f s) = source s"
  by (simp_all add: upd_inst_def)

lemma upd_fu_frame [simp]:
  "gF (upd_fu k f s) = gF s"
  "gR (upd_fu k f s) = gR s"
  "gK (upd_fu k f s) = gK s"
  "gRS_cap (upd_fu k f s) = gRS_cap s"
  "g_next_tag (upd_fu k f s) = g_next_tag s"
  "g_trace_done (upd_fu k f s) = g_trace_done s"
  "g_store (upd_fu k f s) = g_store s"
  "q_dispatch (upd_fu k f s) = q_dispatch s"
  "rs (upd_fu k f s) = rs s"
  "st_update (upd_fu k f s) = st_update s"
  "bus_wait (upd_fu k f s) = bus_wait s"
  "latch_fd_cur (upd_fu k f s) = latch_fd_cur s"
  "latch_fd_nxt (upd_fu k f s) = latch_fd_nxt s"
  "latch_ds_cur (upd_fu k f s) = latch_ds_cur s"
  "latch_ds_nxt (upd_fu k f s) = latch_ds_nxt s"
  "latch_se_cur (upd_fu k f s) = latch_se_cur s"
  "latch_se_nxt (upd_fu k f s) = latch_se_nxt s"
  "reg_map (upd_fu k f s) = reg_map s"
  "g_cycle (upd_fu k f s) = g_cycle s"
  "g_retired (upd_fu k f s) = g_retired s"
  "g_issued_total (upd_fu k f s) = g_issued_total s"
  "g_disp_q_sum (upd_fu k f s) = g_disp_q_sum s"
  "g_disp_q_max (upd_fu k f s) = g_disp_q_max s"
  "source (upd_fu k f s) = source s"
  by (simp_all add: upd_fu_def)

lemma remove_from_rs_frame [simp]:
  "gF (remove_from_rs h s) = gF s"
  "gR (remove_from_rs h s) = gR s"
  "gK (remove_from_rs h s) = gK s"
  "gRS_cap (remove_from_rs h s) = gRS_cap s"
  "g_next_tag (remove_from_rs h s) = g_next_tag s"
  "g_trace_done (remove_from_rs h s) = g_trace_done s"
  "g_store (remove_from_rs h s) = g_store s"
  "q_dispatch (remove_from_rs h s) = q_dispatch s"
  "st_update (remove_from_rs h s) = st_update s"
  "bus_wait (remove_from_rs h s) = bus_wait s"
  "latch_fd_cur (remove_from_rs h s) = latch_fd_cur s"
  "latch_fd_nxt (remove_from_rs h s) = latch_fd_nxt s"
  "latch_ds_cur (remove_from_rs h s) = latch_ds_cur s"
  "latch_ds_nxt (remove_from_rs h s) = latch_ds_nxt s"
  "latch_se_cur (remove_from_rs h s) = latch_se_cur s"
  "latch_se_nxt (remove_from_rs h s) = latch_se_nxt s"
  "reg_map (remove_from_rs h s) = reg_map s"
  "fu_pool (remove_from_rs h s) = fu_pool s"
  "g_cycle (remove_from_rs h s) = g_cycle s"
  "g_retired (remove_from_rs h s) = g_retired s"
  "g_issued_total (remove_from_rs h s) = g_issued_total s"
  "g_disp_q_sum (remove_from_rs h s) = g_disp_q_sum s"
  "g_disp_q_max (remove_from_rs h s) = g_disp_q_max s"
  "source (remove_from_rs h s) = source s"
  by (simp_all add: remove_from_rs_def)

lemma retire_one_frame [simp]:
  "gF (retire_one h s) = gF s"
  "gR (retire_one h s) = gR s"
  "gK (retire_one h s) = gK s"
  "gRS_cap (retire_one h s) = gRS_cap s"
  "g_next_tag (retire_one h s) = g_next_tag s"
  "g_trace_done (retire_one h s) = g_trace_done s"
  "q_dispatch (retire_one h s) = q_dispatch s"
  "st_update (retire_one h s) = st_update s"
  "bus_wait (retire_one h s) = bus_wait s"
  "latch_fd_cur (retire_one h s) = latch_fd_cur s"
  "latch_fd_nxt (retire_one h s) = latch_fd_nxt s"
  "latch_ds_cur (retire_one h s) = latch_ds_cur s"
  "latch_ds_nxt (retire_one h s) = latch_ds_nxt s"
  "latch_se_cur (retire_one h s) = latch_se_cur s"
  "latch_se_nxt (retire_one h s) = latch_se_nxt s"
  "reg_map (retire_one h s) = reg_map s"
  "fu_pool (retire_one h s) = fu_pool s"
  "g_cycle (retire_one h s) = g_cycle s"
  "g_issued_total (retire_one h s) = g_issued_total s"
  "g_disp_q_sum (retire_one h s) = g_disp_q_sum s"
  "g_disp_q_max (retire_one h s) = g_disp_q_max s"
  "source (retire_one h s) = source s"
  by (simp_all add: retire_one_def Let_def)

lemma fold_retire_one_frame [simp]:
  "gF (fold retire_one xs s) = gF s"
  "gR (fold retire_one xs s) = gR s"
  "gK (fold retire_one xs s) = gK s"
  "gRS_cap (fold retire_one xs s) = gRS_cap s"
  "g_next_tag (fold retire_one xs s) = g_next_tag s"
  "g_trace_done (fold retire_one xs s) = g_trace_done s"
  "q_dispatch (fold retire_one xs s) = q_dispatch s"
  "st_update (fold retire_one xs s) = st_update s"
  "bus_wait (fold retire_one xs s) = bus_wait s"
  "latch_fd_cur (fold retire_one xs s) = latch_fd_cur s"
  "latch_fd_nxt (fold retire_one xs s) = latch_fd_nxt s"
  "latch_ds_cur (fold retire_one xs s) = latch_ds_cur s"
  "latch_ds_nxt (fold retire_one xs s) = latch_ds_nxt s"
  "latch_se_cur (fold retire_one xs s) = latch_se_cur s"
  "latch_se_nxt (fold retire_one xs s) = latch_se_nxt s"
  "reg_map (fold retire_one xs s) = reg_map s"
  "fu_pool (fold retire_one xs s) = fu_pool s"
  "g_cycle (fold retire_one xs s) = g_cycle s"
  "g_issued_total (fold retire_one xs s) = g_issued_total s"
  "g_disp_q_sum (fold retire_one xs s) = g_disp_q_sum s"
  "g_disp_q_max (fold retire_one xs s) = g_disp_q_max s"
  "source (fold retire_one xs s) = source s"
  by (induction xs arbitrary: s; simp)+

lemma retire_state_update_frame [simp]:
  "gF (retire_state_update s) = gF s"
  "gR (retire_state_update s) = gR s"
  "gK (retire_state_update s) = gK s"
  "gRS_cap (retire_state_update s) = gRS_cap s"
  "g_next_tag (retire_state_update s) = g_next_tag s"
  "g_trace_done (retire_state_update s) = g_trace_done s"
  "q_dispatch (retire_state_update s) = q_dispatch s"
  "bus_wait (retire_state_update s) = bus_wait s"
  "latch_fd_cur (retire_state_update s) = latch_fd_cur s"
  "latch_fd_nxt (retire_state_update s) = latch_fd_nxt s"
  "latch_ds_cur (retire_state_update s) = latch_ds_cur s"
  "latch_ds_nxt (retire_state_update s) = latch_ds_nxt s"
  "latch_se_cur (retire_state_update s) = latch_se_cur s"
  "latch_se_nxt (retire_state_update s) = latch_se_nxt s"
  "reg_map (retire_state_update s) = reg_map s"
  "fu_pool (retire_state_update s) = fu_pool s"
  "g_cycle (retire_state_update s) = g_cycle s"
  "g_issued_total (retire_state_update s) = g_issued_total s"
  "g_disp_q_sum (retire_state_update s) = g_disp_q_sum s"
  "g_disp_q_max (retire_state_update s) = g_disp_q_max s"
  "source (retire_state_update s) = source s"
  by (simp_all add: retire_state_update_def)

lemma tick_fu_frame [simp]:
  "gF (tick_fu c k s) = gF s"
  "gR (tick_fu c k s) = gR s"
  "gK (tick_fu c k s) = gK s"
  "gRS_cap (tick_fu c k s) = gRS_cap s"
  "g_next_tag (tick_fu c k s) = g_next_tag s"
  "g_trace_done (tick_fu c k s) = g_trace_done s"
  "q_dispatch (tick_fu c k s) = q_dispatch s"
  "rs (tick_fu c k s) = rs s"
  "st_update (tick_fu c k s) = st_update s"
  "latch_fd_cur (tick_fu c k s) = latch_fd_cur s"
  "latch_fd_nxt (tick_fu c k s) = latch_fd_nxt s"
  "latch_ds_cur (tick_fu c k s) = latch_ds_cur s"
  "latch_ds_nxt (tick_fu c k s) = latch_ds_nxt s"
  "latch_se_cur (tick_fu c k s) = latch_se_cur s"
  "latch_se_nxt (tick_fu c k s) = latch_se_nxt s"
  "reg_map (tick_fu c k s) = reg_map s"
  "g_cycle (tick_fu c k s) = g_cycle s"
  "g_retired (tick_fu c k s) = g_retired s"
  "g_issued_total (tick_fu c k s) = g_issued_total s"
  "g_disp_q_sum (tick_fu c k s) = g_disp_q_sum s"
  "g_disp_q_max (tick_fu c k s) = g_disp_q_max s"
  "source (tick_fu c k s) = source s"
  by (simp_all add: tick_fu_def Let_def split: option.splits)

lemma fold_tick_fu_frame [simp]:
  "gF (fold (tick_fu c) ks s) = gF s"
  "gR (fold (tick_fu c) ks s) = gR s"
  "gK (fold (tick_fu c) ks s) = gK s"
  "gRS_cap (fold (tick_fu c) ks s) = gRS_cap s"
  "g_next_tag (fold (tick_fu c) ks s) = g_next_tag s"
  "g_trace_done (fold (tick_fu c) ks s) = g_trace_done s"
  "q_dispatch (fold (tick_fu c) ks s) = q_dispatch s"
  "rs (fold (tick_fu c) ks s) = rs s"
  "st_update (fold (tick_fu c) ks s) = st_update s"
  "latch_fd_cur (fold (tick_fu c) ks s) = latch_fd_cur s"
  "latch_fd_nxt (fold (tick_fu c) ks s) = latch_fd_nxt s"
  "latch_ds_cur (fold (tick_fu c) ks s) = latch_ds_cur s"
  "latch_ds_nxt (fold (tick_fu c) ks s) = latch_ds_nxt s"
  "latch_se_cur (fold (tick_fu c) ks s) = latch_se_cur s"
  "latch_se_nxt (fold (tick_fu c) ks s) = latch_se_nxt s"
  "reg_map (fold (tick_fu c) ks s) = reg_map s"
  "g_cycle (fold (tick_fu c) ks s) = g_cycle s"
  "g_retired (fold (tick_fu c) ks s) = g_retired s"
  "g_issued_total (fold (tick_fu c) ks s) = g_issued_total s"
  "g_disp_q_sum (fold (tick_fu c) ks s) = g_disp_q_sum s"
  "g_disp_q_max (fold (tick_fu c) ks s) = g_disp_q_max s"
  "source (fold (tick_fu c) ks s) = source s"
  by (induction ks arbitrary: s; simp)+

lemma tick_execute_units_frame [simp]:
  "gF (tick_execute_units c s) = gF s"
  "gR (tick_execute_units c s) = gR s"
  "gK (tick_execute_units c s) = gK s"
  "gRS_cap (tick_execute_units c s) = gRS_cap s"
  "g_next_tag (tick_execute_units c s) = g_next_tag s"
  "g_trace_done (tick_execute_units c s) = g_trace_done s"
  "q_dispatch (tick_execute_units c s) = q_dispatch s"
  "rs (tick_execute_units c s) = rs s"
  "st_update (tick_execute_units c s) = st_update s"
  "latch_fd_cur (tick_execute_units c s) = latch_fd_cur s"
  "latch_fd_nxt (tick_execute_units c s) = latch_fd_nxt s"
  "latch_ds_cur (tick_execute_units c s) = latch_ds_cur s"
  "latch_ds_nxt (tick_execute_units c s) = latch_ds_nxt s"
  "latch_se_cur (tick_execute_units c s) = latch_se_cur s"
  "latch_se_nxt (tick_execute_units c s) = latch_se_nxt s"
  "reg_map (tick_execute_units c s) = reg_map s"
  "g_cycle (tick_execute_units c s) = g_cycle s"
  "g_retired (tick_execute_units c s) = g_retired s"
  "g_issued_total (tick_execute_units c s) = g_issued_total s"
  "g_disp_q_sum (tick_execute_units c s) = g_disp_q_sum s"
  "g_disp_q_max (tick_execute_units c s) = g_disp_q_max s"
  "source (tick_execute_units c s) = source s"
  by (simp_all add: tick_execute_units_def)

lemma wakeup_one_frame [simp]:
  "gF (wakeup_one p w s) = gF s"
  "gR (wakeup_one p w s) = gR s"
  "gK (wakeup_one p w s) = gK s"
  "gRS_cap (wakeup_one p w s) = gRS_cap s"
  "g_next_tag (wakeup_one p w s) = g_next_tag s"
  "g_trace_done (wakeup_one p w s) = g_trace_done s"
  "q_dispatch (wakeup_one p w s) = q_dispatch s"
  "rs (wakeup_one p w s) = rs s"
  "st_update (wakeup_one p w s) = st_update s"
  "bus_wait (wakeup_one p w s) = bus_wait s"
  "latch_fd_cur (wakeup_one p w s) = latch_fd_cur s"
  "latch_fd_nxt (wakeup_one p w s) = latch_fd_nxt s"
  "latch_ds_cur (wakeup_one p w s) = latch_ds_cur s"
  "latch_ds_nxt (wakeup_one p w s) = latch_ds_nxt s"
  "latch_se_cur (wakeup_one p w s) = latch_se_cur s"
  "latch_se_nxt (wakeup_one p w s) = latch_se_nxt s"
  "reg_map (wakeup_one p w s) = reg_map s"
  "fu_pool (wakeup_one p w s) = fu_pool s"
  "g_cycle (wakeup_one p w s) = g_cycle s"
  "g_retired (wakeup_one p w s) = g_retired s"
  "g_issued_total (wakeup_one p w s) = g_issued_total s"
  "g_disp_q_sum (wakeup_one p w s) = g_disp_q_sum s"
  "g_disp_q_max (wakeup_one p w s) = g_disp_q_max s"
  "source (wakeup_one p w s) = source s"
  by (simp_all add: wakeup_one_def Let_def)

lemma fold_wakeup_one_frame [simp]:
  "gF (fold (wakeup_one p) ws s) = gF s"
  "gR (fold (wakeup_one p) ws s) = gR s"
  "gK (fold (wakeup_one p) ws s) = gK s"
  "gRS_cap (fold (wakeup_one p) ws s) = gRS_cap s"
  "g_next_tag (fold (wakeup_one p) ws s) = g_next_tag s"
  "g_trace_done (fold (wakeup_one p) ws s) = g_trace_done s"
  "q_dispatch (fold (wakeup_one p) ws s) = q_dispatch s"
  "rs (fold (wakeup_one p) ws s) = rs s"
  "st_update (fold (wakeup_one p) ws s) = st_update s"
  "bus_wait (fold (wakeup_one p) ws s) = bus_wait s"
  "latch_fd_cur (fold (wakeup_one p) ws s) = latch_fd_cur s"
  "latch_fd_nxt (fold (wakeup_one p) ws s) = latch_fd_nxt s"
  "latch_ds_cur (fold (wakeup_one p) ws s) = latch_ds_cur s"
  "latch_ds_nxt (fold (wakeup_one p) ws s) = latch_ds_nxt s"
  "latch_se_cur (fold (wakeup_one p) ws s) = latch_se_cur s"
  "latch_se_nxt (fold (wakeup_one p) ws s) = latch_se_nxt s"
  "reg_map (fold (wakeup_one p) ws s) = reg_map s"
  "fu_pool (fold (wakeup_one p) ws s) = fu_pool s"
  "g_cycle (fold (wakeup_one p) ws s) = g_cycle s"
  "g_retired (fold (wakeup_one p) ws s) = g_retired s"
  "g_issued_total (fold (wakeup_one p) ws s) = g_issued_total s"
  "g_disp_q_sum (fold (wakeup_one p) ws s) = g_disp_q_sum s"
  "g_disp_q_max (fold (wakeup_one p) ws s) = g_disp_q_max s"
  "source (fold (wakeup_one p) ws s) = source s"
  by (induction ws arbitrary: s; simp)+

lemma wakeup_rs_sources_frame [simp]:
  "gF (wakeup_rs_sources p s) = gF s"
  "gR (wakeup_rs_sources p s) = gR s"
  "gK (wakeup_rs_sources p s) = gK s"
  "gRS_cap (wakeup_rs_sources p s) = gRS_cap s"
  "g_next_tag (wakeup_rs_sources p s) = g_next_tag s"
  "g_trace_done (wakeup_rs_sources p s) = g_trace_done s"
  "q_dispatch (wakeup_rs_sources p s) = q_dispatch s"
  "rs (wakeup_rs_sources p s) = rs s"
  "st_update (wakeup_rs_sources p s) = st_update s"
  "bus_wait (wakeup_rs_sources p s) = bus_wait s"
  "latch_fd_cur (wakeup_rs_sources p s) = latch_fd_cur s"
  "latch_fd_nxt (wakeup_rs_sources p s) = latch_fd_nxt s"
  "latch_ds_cur (wakeup_rs_sources p s) = latch_ds_cur s"
  "latch_ds_nxt (wakeup_rs_sources p s) = latch_ds_nxt s"
  "latch_se_cur (wakeup_rs_sources p s) = latch_se_cur s"
  "latch_se_nxt (wakeup_rs_sources p s) = latch_se_nxt s"
  "reg_map (wakeup_rs_sources p s) = reg_map s"
  "fu_pool (wakeup_rs_sources p s) = fu_pool s"
  "g_cycle (wakeup_rs_sources p s) = g_cycle s"
  "g_retired (wakeup_rs_sources p s) = g_retired s"
  "g_issued_total (wakeup_rs_sources p s) = g_issued_total s"
  "g_disp_q_sum (wakeup_rs_sources p s) = g_disp_q_sum s"
  "g_disp_q_max (wakeup_rs_sources p s) = g_disp_q_max s"
  "source (wakeup_rs_sources p s) = source s"
  by (simp_all add: wakeup_rs_sources_def)

lemma free_fu_of_frame [simp]:
  "gF (free_fu_of h s) = gF s"
  "gR (free_fu_of h s) = gR s"
  "gK (free_fu_of h s) = gK s"
  "gRS_cap (free_fu_of h s) = gRS_cap s"
  "g_next_tag (free_fu_of h s) = g_next_tag s"
  "g_trace_done (free_fu_of h s) = g_trace_done s"
  "q_dispatch (free_fu_of h s) = q_dispatch s"
  "rs (free_fu_of h s) = rs s"
  "st_update (free_fu_of h s) = st_update s"
  "bus_wait (free_fu_of h s) = bus_wait s"
  "latch_fd_cur (free_fu_of h s) = latch_fd_cur s"
  "latch_fd_nxt (free_fu_of h s) = latch_fd_nxt s"
  "latch_ds_cur (free_fu_of h s) = latch_ds_cur s"
  "latch_ds_nxt (free_fu_of h s) = latch_ds_nxt s"
  "latch_se_cur (free_fu_of h s) = latch_se_cur s"
  "latch_se_nxt (free_fu_of h s) = latch_se_nxt s"
  "reg_map (free_fu_of h s) = reg_map s"
  "g_cycle (free_fu_of h s) = g_cycle s"
  "g_retired (free_fu_of h s) = g_retired s"
  "g_issued_total (free_fu_of h s) = g_issued_total s"
  "g_disp_q_sum (free_fu_of h s) = g_disp_q_sum s"
  "g_disp_q_max (free_fu_of h s) = g_disp_q_max s"
  "source (free_fu_of h s) = source s"
  by (simp_all add: free_fu_of_def split: option.splits)

lemma clear_reg_map_frame [simp]:
  "gF (clear_reg_map h s) = gF s"
  "gR (clear_reg_map h s) = gR s"
  "gK (clear_reg_map h s) = gK s"
  "gRS_cap (clear_reg_map h s) = gRS_cap s"
  "g_next_tag (clear_reg_map h s) = g_next_tag s"
  "g_trace_done (clear_reg_map h s) = g_trace_done s"
  "g_store (clear_reg_map h s) = g_store s"
  "q_dispatch (clear_reg_map h s) = q_dispatch s"
  "rs (clear_reg_map h s) = rs s"
  "st_update (clear_reg_map h s) = st_update s"
  "bus_wait (clear_reg_map h s) = bus_wait s"
  "latch_fd_cur (clear_reg_map h s) = latch_fd_cur s"
  "latch_fd_nxt (clear_reg_map h s) = latch_fd_nxt s"
  "latch_ds_cur (clear_reg_map h s) = latch_ds_cur s"
  "latch_ds_nxt (clear_reg_map h s) = latch_ds_nxt s"
  "latch_se_cur (clear_reg_map h s) = latch_se_cur s"
  "latch_se_nxt (clear_reg_map h s) = latch_se_nxt s"
  "fu_pool (clear_reg_map h s) = fu_pool s"
  "g_cycle (clear_reg_map h s) = g_cycle s"
  "g_retired (clear_reg_map h s) = g_retired s"
  "g_issued_total (clear_reg_map h s) = g_issued_total s"
  "g_disp_q_sum (clear_reg_map h s) = g_disp_q_sum s"
  "g_disp_q_max (clear_reg_map h s) = g_disp_q_max s"
  "source (clear_reg_map h s) = source s"
  by (simp_all add: clear_reg_map_def Let_def)

lemma broadcast_one_frame [simp]:
  "gF (broadcast_one c h s) = gF s"
  "gR (broadcast_one c h s) = gR s"
  "gK (broadcast_one c h s) = gK s"
  "gRS_cap (broadcast_one c h s) = gRS_cap s"
  "g_next_tag (broadcast_one c h s) = g_next_tag s"
  "g_trace_done (broadcast_one c h s) = g_trace_done s"
  "q_dispatch (broadcast_one c h s) = q_dispatch s"
  "rs (broadcast_one c h s) = rs s"
  "bus_wait (broadcast_one c h s) = bus_wait s"
  "latch_fd_cur (broadcast_one c h s) = latch_fd_cur s"
  "latch_fd_nxt (broadcast_one c h s) = latch_fd_nxt s"
  "latch_ds_cur (broadcast_one c h s) = latch_ds_cur s"
  "latch_ds_nxt (broadcast_one c h s) = latch_ds_nxt s"
  "latch_se_cur (broadcast_one c h s) = latch_se_cur s"
  "latch_se_nxt (broadcast_one c h s) = latch_se_nxt s"
  "g_cycle (broadcast_one c h s) = g_cycle s"
  "g_retired (broadcast_one c h s) = g_retired s"
  "g_issued_total (broadcast_one c h s) = g_issued_total s"
  "g_disp_q_sum (broadcast_one c h s) = g_disp_q_sum s"
  "g_disp_q_max (broadcast_one c h s) = g_disp_q_max s"
  "source (broadcast_one c h s) = source s"
  by (simp_all add: broadcast_one_def Let_def)

lemma fold_broadcast_one_frame [simp]:
  "gF (fold (broadcast_one c) hs s) = gF s"
  "gR (fold (broadcast_one c) hs s) = gR s"
  "gK (fold (broadcast_one c) hs s) = gK s"
  "gRS_cap (fold (broadcast_one c) hs s) = gRS_cap s"
  "g_next_tag (fold (broadcast_one c) hs s) = g_next_tag s"
  "g_trace_done (fold (broadcast_one c) hs s) = g_trace_done s"
  "q_dispatch (fold (broadcast_one c) hs s) = q_dispatch s"
  "rs (fold (broadcast_one c) hs s) = rs s"
  "bus_wait (fold (broadcast_one c) hs s) = bus_wait s"
  "latch_fd_cur (fold (broadcast_one c) hs s) = latch_fd_cur s"
  "latch_fd_nxt (fold (broadcast_one c) hs s) = latch_fd_nxt s"
  "latch_ds_cur (fold (broadcast_one c) hs s) = latch_ds_cur s"
  "latch_ds_nxt (fold (broadcast_one c) hs s) = latch_ds_nxt s"
  "latch_se_cur (fold (broadcast_one c) hs s) = latch_se_cur s"
  "latch_se_nxt (fold (broadcast_one c) hs s) = latch_se_nxt s"
  "g_cycle (fold (broadcast_one c) hs s) = g_cycle s"
  "g_retired (fold (broadcast_one c) hs s) = g_retired s"
  "g_issued_total (fold (broadcast_one c) hs s) = g_issued_total s"
  "g_disp_q_sum (fold (broadcast_one c) hs s) = g_disp_q_sum s"
  "g_disp_q_max (fold (broadcast_one c) hs s) = g_disp_q_max s"
  "source (fold (broadcast_one c) hs s) = source s"
  by (induction hs arbitrary: s; simp)+

lemma insert_one_frame [simp]:
  "gF (insert_one c h s) = gF s"
  "gR (insert_one c h s) = gR s"
  "gK (insert_one c h s) = gK s"
  "gRS_cap (insert_one c h s) = gRS_cap s"
  "g_next_tag (insert_one c h s) = g_next_tag s"
  "g_trace_done (insert_one c h s) = g_trace_done s"
  "q_dispatch (insert_one c h s) = q_dispatch s"
  "st_update (insert_one c h s) = st_update s"
  "bus_wait (insert_one c h s) = bus_wait s"
  "latch_fd_cur (insert_one c h s) = latch_fd_cur s"
  "latch_fd_nxt (insert_one c h s) = latch_fd_nxt s"
  "latch_ds_cur (insert_one c h s) = latch_ds_cur s"
  "latch_ds_nxt (insert_one c h s) = latch_ds_nxt s"
  "latch_se_cur (insert_one c h s) = latch_se_cur s"
  "latch_se_nxt (insert_one c h s) = latch_se_nxt s"
  "fu_pool (insert_one c h s) = fu_pool s"
  "g_cycle (insert_one c h s) = g_cycle s"
  "g_retired (insert_one c h s) = g_retired s"
  "g_issued_total (insert_one c h s) = g_issued_total s"
  "g_disp_q_sum (insert_one c h s) = g_disp_q_sum s"
  "g_disp_q_max (insert_one c h s) = g_disp_q_max s"
  "source (insert_one c h s) = source s"
  by (simp_all add: insert_one_def Let_def)

lemma fold_insert_one_frame [simp]:
  "gF (fold (insert_one c) hs s) = gF s"
  "gR (fold (insert_one c) hs s) = gR s"
  "gK (fold (insert_one c) hs s) = gK s"
  "gRS_cap (fold (insert_one c) hs s) = gRS_cap s"
  "g_next_tag (fold (insert_one c) hs s) = g_next_tag s"
  "g_trace_done (fold (insert_one c) hs s) = g_trace_done s"
  "q_dispatch (fold (insert_one c) hs s) = q_dispatch s"
  "st_update (fold (insert_one c) hs s) = st_update s"
  "bus_wait (fold (insert_one c) hs s) = bus_wait s"
  "latch_fd_cur (fold (insert_one c) hs s) = latch_fd_cur s"
  "latch_fd_nxt (fold (insert_one c) hs s) = latch_fd_nxt s"
  "latch_ds_cur (fold (insert_one c) hs s) = latch_ds_cur s"
  "latch_ds_nxt (fold (insert_one c) hs s) = latch_ds_nxt s"
  "latch_se_cur (fold (insert_one c) hs s) = latch_se_cur s"
  "latch_se_nxt (fold (insert_one c) hs s) = latch_se_nxt s"
  "fu_pool (fold (insert_one c) hs s) = fu_pool s"
  "g_cycle (fold (insert_one c) hs s) = g_cycle s"
  "g_retired (fold (insert_one c) hs s) = g_retired s"
  "g_issued_total (fold (insert_one c) hs s) = g_issued_total s"
  "g_disp_q_sum (fold (insert_one c) hs s) = g_disp_q_sum s"
  "g_disp_q_max (fold (insert_one c) hs s) = g_disp_q_max s"
  "source (fold (insert_one c) hs s) = source s"
  by (induction hs arbitrary: s; simp)+

lemma insert_into_rs_frame [simp]:
  "gF (insert_into_rs c s) = gF s"
  "gR (insert_into_rs c s) = gR s"
  "gK (insert_into_rs c s) = gK s"
  "gRS_cap (insert_into_rs c s) = gRS_cap s"
  "g_next_tag (insert_into_rs c s) = g_next_tag s"
  "g_trace_done (insert_into_rs c s) = g_trace_done s"
  "q_dispatch (insert_into_rs c s) = q_dispatch s"
  "st_update (insert_into_rs c s) = st_update s"
  "bus_wait (insert_into_rs c s) = bus_wait s"
  "latch_fd_cur (insert_into_rs c s) = latch_fd_cur s"
  "latch_fd_nxt (insert_into_rs c s) = latch_fd_nxt s"
  "latch_ds_nxt (insert_into_rs c s) = latch_ds_nxt s"
  "latch_se_cur (insert_into_rs c s) = latch_se_cur s"
  "latch_se_nxt (insert_into_rs c s) = latch_se_nxt s"
  "fu_pool (insert_into_rs c s) = fu_pool s"
  "g_cycle (insert_into_rs c s) = g_cycle s"
  "g_retired (insert_into_rs c s) = g_retired s"
  "g_issued_total (insert_into_rs c s) = g_issued_total s"
  "g_disp_q_sum (insert_into_rs c s) = g_disp_q_sum s"
  "g_disp_q_max (insert_into_rs c s) = g_disp_q_max s"
  "source (insert_into_rs c s) = source s"
  by (simp_all add: insert_into_rs_def)

lemma move_one_frame [simp]:
  "gF (move_one c h s) = gF s"
  "gR (move_one c h s) = gR s"
  "gK (move_one c h s) = gK s"
  "gRS_cap (move_one c h s) = gRS_cap s"
  "g_next_tag (move_one c h s) = g_next_tag s"
  "g_trace_done (move_one c h s) = g_trace_done s"
  "rs (move_one c h s) = rs s"
  "st_update (move_one c h s) = st_update s"
  "bus_wait (move_one c h s) = bus_wait s"
  "latch_fd_cur (move_one c h s) = latch_fd_cur s"
  "latch_fd_nxt (move_one c h s) = latch_fd_nxt s"
  "latch_ds_cur (move_one c h s) = latch_ds_cur s"
  "latch_ds_nxt (move_one c h s) = latch_ds_nxt s"
  "latch_se_cur (move_one c h s) = latch_se_cur s"
  "latch_se_nxt (move_one c h s) = latch_se_nxt s"
  "reg_map (move_one c h s) = reg_map s"
  "fu_pool (move_one c h s) = fu_pool s"
  "g_cycle (move_one c h s) = g_cycle s"
  "g_retired (move_one c h s) = g_retired s"
  "g_issued_total (move_one c h s) = g_issued_total s"
  "g_disp_q_sum (move_one c h s) = g_disp_q_sum s"
  "g_disp_q_max (move_one c h s) = g_disp_q_max s"
  "source (move_one c h s) = source s"
  by (simp_all add: move_one_def Let_def)

lemma fold_move_one_frame [simp]:
  "gF (fold (move_one c) hs s) = gF s"
  "gR (fold (move_one c) hs s) = gR s"
  "gK (fold (move_one c) hs s) = gK s"
  "gRS_cap (fold (move_one c) hs s) = gRS_cap s"
  "g_next_tag (fold (move_one c) hs s) = g_next_tag s"
  "g_trace_done (fold (move_one c) hs s) = g_trace_done s"
  "rs (fold (move_one c) hs s) = rs s"
  "st_update (fold (move_one c) hs s) = st_update s"
  "bus_wait (fold (move_one c) hs s) = bus_wait s"
  "latch_fd_cur (fold (move_one c) hs s) = latch_fd_cur s"
  "latch_fd_nxt (fold (move_one c) hs s) = latch_fd_nxt s"
  "latch_ds_cur (fold (move_one c) hs s) = latch_ds_cur s"
  "latch_ds_nxt (fold (move_one c) hs s) = latch_ds_nxt s"
  "latch_se_cur (fold (move_one c) hs s) = latch_se_cur s"
  "latch_se_nxt (fold (move_one c) hs s) = latch_se_nxt s"
  "reg_map (fold (move_one c) hs s) = reg_map s"
  "fu_pool (fold (move_one c) hs s) = fu_pool s"
  "g_cycle (fold (move_one c) hs s) = g_cycle s"
  "g_retired (fold (move_one c) hs s) = g_retired s"
  "g_issued_total (fold (move_one c) hs s) = g_issued_total s"
  "g_disp_q_sum (fold (move_one c) hs s) = g_disp_q_sum s"
  "g_disp_q_max (fold (move_one c) hs s) = g_disp_q_max s"
  "source (fold (move_one c) hs s) = source s"
  by (induction hs arbitrary: s; simp)+

lemma move_into_dispatch_frame [simp]:
  "gF (move_into_dispatch c s) = gF s"
  "gR (move_into_dispatch c s) = gR s"
  "gK (move_into_dispatch c s) = gK s"
  "gRS_cap (move_into_dispatch c s) = gRS_cap s"
  "g_next_tag (move_into_dispatch c s) = g_next_tag s"
  "g_trace_done (move_into_dispatch c s) = g_trace_done s"
  "rs (move_into_dispatch c s) = rs s"
  "st_update (move_into_dispatch c s) = st_update s"
  "bus_wait (move_into_dispatch c s) = bus_wait s"
  "latch_fd_nxt (move_into_dispatch c s) = latch_fd_nxt s"
  "latch_ds_cur (move_into_dispatch c s) = latch_ds_cur s"
  "latch_ds_nxt (move_into_dispatch c s) = latch_ds_nxt s"
  "latch_se_cur (move_into_dispatch c s) = latch_se_cur s"
  "latch_se_nxt (move_into_dispatch c s) = latch_se_nxt s"
  "reg_map (move_into_dispatch c s) = reg_map s"
  "fu_pool (move_into_dispatch c s) = fu_pool s"
  "g_cycle (move_into_dispatch c s) = g_cycle s"
  "g_retired (move_into_dispatch c s) = g_retired s"
  "g_issued_total (move_into_dispatch c s) = g_issued_total s"
  "g_disp_q_sum (move_into_dispatch c s) = g_disp_q_sum s"
  "g_disp_q_max (move_into_dispatch c s) = g_disp_q_max s"
  "source (move_into_dispatch c s) = source s"
  by (simp_all add: move_into_dispatch_def)

lemma sample_disp_q_frame [simp]:
  "gF (sample_disp_q s) = gF s"
  "gR (sample_disp_q s) = gR s"
  "gK (sample_disp_q s) = gK s"
  "gRS_cap (sample_disp_q s) = gRS_cap s"
  "g_next_tag (sample_disp_q s) = g_next_tag s"
  "g_trace_done (sample_disp_q s) = g_trace_done s"
  "g_store (sample_disp_q s) = g_store s"
  "q_dispatch (sample_disp_q s) = q_dispatch s"
  "rs (sample_disp_q s) = rs s"
  "st_update (sample_disp_q s) = st_update s"
  "bus_wait (sample_disp_q s) = bus_wait s"
  "latch_fd_cur (sample_disp_q s) = latch_fd_cur s"
  "latch_fd_nxt (sample_disp_q s) = latch_fd_nxt s"
  "latch_ds_cur (sample_disp_q s) = latch_ds_cur s"
  "latch_ds_nxt (sample_disp_q s) = latch_ds_nxt s"
  "latch_se_cur (sample_disp_q s) = latch_se_cur s"
  "latch_se_nxt (sample_disp_q s) = latch_se_nxt s"
  "reg_map (sample_disp_q s) = reg_map s"
  "fu_pool (sample_disp_q s) = fu_pool s"
  "g_cycle (sample_disp_q s) = g_cycle s"
  "g_retired (sample_disp_q s) = g_retired s"
  "g_issued_total (sample_disp_q s) = g_issued_total s"
  "source (sample_disp_q s) = source s"
  by (simp_all add: sample_disp_q_def)

lemma issue_loop_frame [simp]:
  "gF (snd (issue_loop c fn hs res fired s)) = gF s"
  "gR (snd (issue_loop c fn hs res fired s)) = gR s"
  "gK (snd (issue_loop c fn hs res fired s)) = gK s"
  "gRS_cap (snd (issue_loop c fn hs res fired s)) = gRS_cap s"
  "g_next_tag (snd (issue_loop c fn hs res fired s)) = g_next_tag s"
  "g_trace_done (snd (issue_loop c fn hs res fired s)) = g_trace_done s"
  "q_dispatch (snd (issue_loop c fn hs res fired s)) = q_dispatch s"
  "rs (snd (issue_loop c fn hs res fired s)) = rs s"
  "st_update (snd (issue_loop c fn hs res fired s)) = st_update s"
  "bus_wait (snd (issue_loop c fn hs res fired s)) = bus_wait s"
  "latch_fd_cur (snd (issue_loop c fn hs res fired s)) = latch_fd_cur s"
  "latch_fd_nxt (snd (issue_loop c fn hs res fired s)) = latch_fd_nxt s"
  "latch_ds_cur (snd (issue_loop c fn hs res fired s)) = latch_ds_cur s"
  "latch_ds_nxt (snd (issue_loop c fn hs res fired s)) = latch_ds_nxt s"
  "latch_se_cur (snd (issue_loop c fn hs res fired s)) = latch_se_cur s"
  "reg_map (snd (issue_loop c fn hs res fired s)) = reg_map s"
  "fu_pool (snd (issue_loop c fn hs res fired s)) = fu_pool s"
  "g_cycle (snd (issue_loop c fn hs res fired s)) = g_cycle s"
  "g_retired (snd (issue_loop c fn hs res fired s)) = g_retired s"
  "g_issued_total (snd (issue_loop c fn hs res fired s)) = g_issued_total s"
  "g_disp_q_sum (snd (issue_loop c fn hs res fired s)) = g_disp_q_sum s"
  "g_disp_q_max (snd (issue_loop c fn hs res fired s)) = g_disp_q_max s"
  "source (snd (issue_loop c fn hs res fired s)) = source s"
  by (induction hs arbitrary: res fired s; simp add: Let_def)+

lemma issue_ready_frame [simp]:
  "gF (snd (issue_ready c s)) = gF s"
  "gR (snd (issue_ready c s)) = gR s"
  "gK (snd (issue_ready c s)) = gK s"
  "gRS_cap (snd (issue_ready c s)) = gRS_cap s"
  "g_next_tag (snd (issue_ready c s)) = g_next_tag s"
  "g_trace_done (snd (issue_ready c s)) = g_trace_done s"
  "q_dispatch (snd (issue_ready c s)) = q_dispatch s"
  "rs (snd (issue_ready c s)) = rs s"
  "st_update (snd (issue_ready c s)) = st_update s"
  "bus_wait (snd (issue_ready c s)) = bus_wait s"
  "latch_fd_cur (snd (issue_ready c s)) = latch_fd_cur s"
  "latch_fd_nxt (snd (issue_ready c s)) = latch_fd_nxt s"
  "latch_ds_cur (snd (issue_ready c s)) = latch_ds_cur s"
  "latch_ds_nxt (snd (issue_ready c s)) = latch_ds_nxt s"
  "latch_se_cur (snd (issue_ready c s)) = latch_se_cur s"
  "reg_map (snd (issue_ready c s)) = reg_map s"
  "fu_pool (snd (issue_ready c s)) = fu_pool s"
  "g_cycle (snd (issue_ready c s)) = g_cycle s"
  "g_retired (snd (issue_ready c s)) = g_retired s"
  "g_issued_total (snd (issue_ready c s)) = g_issued_total s"
  "g_disp_q_sum (snd (issue_ready c s)) = g_disp_q_sum s"
  "g_disp_q_max (snd (issue_ready c s)) = g_disp_q_max s"
  "source (snd (issue_ready c s)) = source s"
  by (simp_all add: issue_ready_def)

lemma issue_stage_frame [simp]:
  "gF (issue_stage c s) = gF s"
  "gR (issue_stage c s) = gR s"
  "gK (issue_stage c s) = gK s"
  "gRS_cap (issue_stage c s) = gRS_cap s"
  "g_next_tag (issue_stage c s) = g_next_tag s"
  "g_trace_done (issue_stage c s) = g_trace_done s"
  "q_dispatch (issue_stage c s) = q_dispatch s"
  "rs (issue_stage c s) = rs s"
  "st_update (issue_stage c s) = st_update s"
  "bus_wait (issue_stage c s) = bus_wait s"
  "latch_fd_cur (issue_stage c s) = latch_fd_cur s"
  "latch_fd_nxt (issue_stage c s) = latch_fd_nxt s"
  "latch_ds_cur (issue_stage c s) = latch_ds_cur s"
  "latch_ds_nxt (issue_stage c s) = latch_ds_nxt s"
  "latch_se_cur (issue_stage c s) = latch_se_cur s"
  "reg_map (issue_stage c s) = reg_map s"
  "fu_pool (issue_stage c s) = fu_pool s"
  "g_cycle (issue_stage c s) = g_cycle s"
  "g_retired (issue_stage c s) = g_retired s"
  "g_disp_q_sum (issue_stage c s) = g_disp_q_sum s"
  "g_disp_q_max (issue_stage c s) = g_disp_q_max s"
  "source (issue_stage c s) = source s"
  by (simp_all add: issue_stage_def split_beta)

lemma dispatch_to_schedule_frame [simp]:
  "gF (dispatch_to_schedule s) = gF s"
  "gR (dispatch_to_schedule s) = gR s"
  "gK (dispatch_to_schedule s) = gK s"
  "gRS_cap (dispatch_to_schedule s) = gRS_cap s"
  "g_next_tag (dispatch_to_schedule s) = g_next_tag s"
  "g_trace_done (dispatch_to_schedule s) = g_trace_done s"
  "g_store (dispatch_to_schedule s) = g_store s"
  "rs (dispatch_to_schedule s) = rs s"
  "st_update (dispatch_to_schedule s) = st_update s"
  "bus_wait (dispatch_to_schedule s) = bus_wait s"
  "latch_fd_cur (dispatch_to_schedule s) = latch_fd_cur s"
  "latch_fd_nxt (dispatch_to_schedule s) = latch_fd_nxt s"
  "latch_ds_cur (dispatch_to_schedule s) = latch_ds_cur s"
  "latch_se_cur (dispatch_to_schedule s) = latch_se_cur s"
  "latch_se_nxt (dispatch_to_schedule s) = latch_se_nxt s"
  "reg_map (dispatch_to_schedule s) = reg_map s"
  "fu_pool (dispatch_to_schedule s) = fu_pool s"
  "g_cycle (dispatch_to_schedule s) = g_cycle s"
  "g_retired (dispatch_to_schedule s) = g_retired s"
  "g_issued_total (dispatch_to_schedule s) = g_issued_total s"
  "g_disp_q_sum (dispatch_to_schedule s) = g_disp_q_sum s"
  "g_disp_q_max (dispatch_to_schedule s) = g_disp_q_max s"
  "source (dispatch_to_schedule s) = source s"
  by (induction s rule: dispatch_to_schedule.induct; subst dispatch_to_schedule.simps; simp split: list.splits)+

lemma fetch_loop_frame [simp]:
  "gF (fetch_loop c n s) = gF s"
  "gR (fetch_loop c n s) = gR s"
  "gK (fetch_loop c n s) = gK s"
  "gRS_cap (fetch_loop c n s) = gRS_cap s"
  "q_dispatch (fetch_loop c n s) = q_dispatch s"
  "rs (fetch_loop c n s) = rs s"
  "st_update (fetch_loop c n s) = st_update s"
  "bus_wait (fetch_loop c n s) = bus_wait s"
  "latch_fd_cur (fetch_loop c n s) = latch_fd_cur s"
  "latch_ds_cur (fetch_loop c n s) = latch_ds_cur s"
  "latch_ds_nxt (fetch_loop c n s) = latch_ds_nxt s"
  "latch_se_cur (fetch_loop c n s) = latch_se_cur s"
  "latch_se_nxt (fetch_loop c n s) = latch_se_nxt s"
  "reg_map (fetch_loop c n s) = reg_map s"
  "fu_pool (fetch_loop c n s) = fu_pool s"
  "g_cycle (fetch_loop c n s) = g_cycle s"
  "g_retired (fetch_loop c n s) = g_retired s"
  "g_issued_total (fetch_loop c n s) = g_issued_total s"
  "g_disp_q_sum (fetch_loop c n s) = g_disp_q_sum s"
  "g_disp_q_max (fetch_loop c n s) = g_disp_q_max s"
  by (induction n arbitrary: s; simp add: read_instruction_def split: list.splits)+

lemma fetch_instructions_frame [simp]:
  "gF (fetch_instructions c s) = gF s"
  "gR (fetch_instructions c s) = gR s"
  "gK (fetch_instructions c s) = gK s"
  "gRS_cap (fetch_instructions c s) = gRS_cap s"
  "q_dispatch (fetch_instructions c s) = q_dispatch s"
  "rs (fetch_instructions c s) = rs s"
  "st_update (fetch_instructions c s) = st_update s"
  "bus_wait (fetch_instructions c s) = bus_wait s"
  "latch_fd_cur (fetch_instructions c s) = latch_fd_cur s"
  "latch_ds_cur (fetch_instructions c s) = latch_ds_cur s"
  "latch_ds_nxt (fetch_instructions c s) = latch_ds_nxt s"
  "latch_se_cur (fetch_instructions c s) = latch_se_cur s"
  "latch_se_nxt (fetch_instructions c s) = latch_se_nxt s"
  "reg_map (fetch_instructions c s) = reg_map s"
  "fu_pool (fetch_instructions c s) = fu_pool s"
  "g_cycle (fetch_instructions c s) = g_cycle s"
  "g_retired (fetch_instructions c s) = g_retired s"
  "g_issued_total (fetch_instructions c s) = g_issued_total s"
  "g_disp_q_sum (fetch_instructions c s) = g_disp_q_sum s"
  "g_disp_q_max (fetch_instructions c s) = g_disp_q_max s"
  by (simp_all add: fetch_instructions_def)

lemma advance_latches_frame [simp]:
  "gF (advance_latches s) = gF s"
  "gR (advance_latches s) = gR s"
  "gK (advance_latches s) = gK s"
  "gRS_cap (advance_latches s) = gRS_cap s"
  "g_next_tag (advance_latches s) = g_next_tag s"
  "g_trace_done (advance_latches s) = g_trace_done s"
  "g_store (advance_latches s) = g_store s"
  "q_dispatch (advance_latches s) = q_dispatch s"
  "rs (advance_latches s) = rs s"
  "st_update (advance_latches s) = st_update s"
  "bus_wait (advance_latches s) = bus_wait s"
  "reg_map (advance_latches s) = reg_map s"
  "fu_pool (advance_latches s) = fu_pool s"
  "g_cycle (advance_latches s) = g_cycle s"
  "g_retired (advance_latches s) = g_retired s"
  "g_issued_total (advance_latches s) = g_issued_total s"
  "g_disp_q_sum (advance_latches s) = g_disp_q_sum s"
  "g_disp_q_max (advance_latches s) = g_disp_q_max s"
  "source (advance_latches s) = source s"
  by (simp_all add: advance_latches_def)

lemma back_end_frame [simp]:
  "gF (back_end c s) = gF s"
  "gR (back_end c s) = gR s"
  "gK (back_end c s) = gK s"
  "gRS_cap (back_end c s) = gRS_cap s"
  "st_update (back_end c s) = st_update s"
  "bus_wait (back_end c s) = bus_wait s"
  "fu_pool (back_end c s) = fu_pool s"
  "g_cycle (back_end c s) = g_cycle s"
  "g_retired (back_end c s) = g_retired s"
  by (simp_all add: back_end_def)

section \<open>The lookahead computes the reference counts\<close>

lemma length_insert_by [simp]: "length (insert_by lt x xs) = Suc (length xs)"
  by (induction xs) auto

lemma length_sort_by [simp]: "length (sort_by lt xs) = length xs"
  unfolding sort_by_def by (induction xs) auto

lemma scan_fu_fold:
  "fold (scan_fu st cycle) fs (fc, cs) = (fc', cs') \<Longrightarrow>
     cs' = cs @ candidates_of st cycle fs \<and> length fc' = length fc \<and>
     (\<forall>t < length fc. fc' ! t = fc ! t + int (idle_of_type t fs))"
proof (induction fs arbitrary: fc cs)
  case Nil
  then show ?case by (simp add: candidates_of_def idle_of_type_def)
next
  case (Cons f fs)
  obtain fc1 cs1 where step: "scan_fu st cycle f (fc, cs) = (fc1, cs1)"
    by (cases "scan_fu st cycle f (fc, cs)")
  with Cons.prems have rest: "fold (scan_fu st cycle) fs (fc1, cs1) = (fc', cs')" by simp
  have a: "cs1 = cs @ candidate_of st cycle f" "length fc1 = length fc"
    using step by (auto simp add: scan_fu_def candidate_of_def split: option.splits if_splits)
  have b: "\<forall>t < length fc. fc1 ! t = fc ! t + (if fu_inst f = None \<and> fu_type f = t then 1 else 0)"
    using step by (auto simp add: scan_fu_def nth_list_update split: option.splits if_splits)
  from Cons.IH[OF rest] a b show ?case
    by (auto simp add: candidates_of_def idle_of_type_def)
qed

lemma grant_loop_count:
  "g \<le> length cs \<Longrightarrow> t < length fc \<Longrightarrow>
     grant_loop cs g fc ! t = fc ! t + int (length (filter (\<lambda>c. c_type c = t) (take g cs))) \<and>
     length (grant_loop cs g fc) = length fc"
proof (induction g)
  case 0
  then show ?case by (simp add: grant_loop_def)
next
  case (Suc g)
  then have IH: "grant_loop cs g fc ! t = fc ! t + int (length (filter (\<lambda>c. c_type c = t) (take g cs)))"
    "length (grant_loop cs g fc) = length fc" by auto
  have unf: "grant_loop cs (Suc g) fc =
      (grant_loop cs g fc)[c_type (cs ! g) := grant_loop cs g fc ! c_type (cs ! g) + 1]"
    by (simp add: grant_loop_def)
  have tk: "take (Suc g) cs = take g cs @ [cs ! g]"
    using Suc.prems by (simp add: take_Suc_conv_app_nth)
  show ?case
    using IH Suc.prems(2) by (auto simp add: unf tk nth_list_update)
qed

lemma cand_less_key:
  "cand_less st a b \<longleftrightarrow> candidate_key st a < candidate_key st b"
  by (auto simp add: cand_less_def candidate_key_def less_prod_def)

lemma insert_by_insort_key:
  "insert_by (cand_less st) x xs = insort_key (candidate_key st) x xs"
  by (induction xs) (auto simp add: cand_less_key)

lemma sort_by_sort_key:
  "sort_by (cand_less st) xs = sort_key (candidate_key st) xs"
proof -
  have "insert_by (cand_less st) = insort_key (candidate_key st)"
    by (intro ext) (rule insert_by_insort_key)
  then show ?thesis by (simp add: sort_by_def sort_key_def)
qed

lemma granted_candidates_sorted:
  "sorted (map (candidate_key (g_store s)) (granted_candidates cycle s))"
  by (simp add: granted_candidates_def Let_def sorted_wrt_take flip: take_map)

lemma projected_free_fus_reference:
  assumes "t < kTypes"
  shows "projected_free_fus cycle s ! t = lookahead_reference cycle s t"
proof -
  obtain fc cs where sc: "fold (scan_fu (g_store s) cycle) (fu_pool s) ([0, 0, 0], []) = (fc, cs)"
    by (cases "fold (scan_fu (g_store s) cycle) (fu_pool s) ([0, 0, 0], [])")
  from scan_fu_fold[OF sc] have
    cs: "cs = candidates_of (g_store s) cycle (fu_pool s)" and
    len: "length fc = 3" and
    fc: "fc ! t = int (idle_of_type t (fu_pool s))"
    using assms by (auto simp add: kTypes_def nth_Cons split: nat.splits)
  have "projected_free_fus cycle s =
      grant_loop (sort_by (cand_less (g_store s)) cs) (min (gR s) (length cs)) fc"
    by (simp add: projected_free_fus_def sc Let_def)
  moreover have "min (gR s) (length cs) \<le> length (sort_by (cand_less (g_store s)) cs)" by simp
  moreover have "t < length fc" using len assms by (simp add: kTypes_def)
  ultimately show ?thesis
    using grant_loop_count[of "min (gR s) (length cs)" "sort_by (cand_less (g_store s)) cs" t fc]
    by (simp add: lookahead_reference_def granted_candidates_def cs fc Let_def sort_by_sort_key)
qed

lemma length_projected [simp]: "length (projected_free_fus cycle s) = 3"
proof -
  obtain fc cs where sc: "fold (scan_fu (g_store s) cycle) (fu_pool s) ([0, 0, 0], []) = (fc, cs)"
    by (cases "fold (scan_fu (g_store s) cycle) (fu_pool s) ([0, 0, 0], [])")
  from scan_fu_fold[OF sc] have len: "length fc = 3" by simp
  have "min (gR s) (length cs) \<le> length (sort_by (cand_less (g_store s)) cs)" by simp
  from grant_loop_count[OF this, of 0 fc] len show ?thesis
    by (simp add: projected_free_fus_def sc Let_def)
qed


lemma set_insert_by [simp]: "set (insert_by lt x xs) = insert x (set xs)"
  by (induction xs) auto

lemma set_sort_by [simp]: "set (sort_by lt xs) = set xs"
  unfolding sort_by_def by (induction xs) auto


section \<open>The broadcast loop in closed form, and the configuration is constant\<close>

lemma broadcast_loop_closed:
  "broadcast_loop c xs used rem s =
     (rem @ drop (gR s - used) xs, fold (broadcast_one c) (take (gR s - used) xs) s)"
proof (induction xs arbitrary: used rem s)
  case Nil
  then show ?case by simp
next
  case (Cons h hs)
  show ?case
  proof (cases "used \<ge> gR s")
    case True
    then show ?thesis using Cons.IH[of used "rem @ [h]" s] by simp
  next
    case False
    then obtain m where m: "gR s - used = Suc m" by (cases "gR s - used") auto
    then have m': "gR s - (used + 1) = m" by simp
    show ?thesis using False Cons.IH[of "used + 1" rem "broadcast_one c h s"] m m'
      by simp
  qed
qed

lemma broadcast_results_closed:
  "broadcast_results c s =
     (if bus_wait s = [] then s
      else (fold (broadcast_one c) (take (gR s) (sort_by (bus_less (g_store s)) (bus_wait s))) s)
             \<lparr>bus_wait := drop (gR s) (sort_by (bus_less (g_store s)) (bus_wait s))\<rparr>)"
  by (simp add: broadcast_results_def broadcast_loop_closed)

lemma broadcast_results_frame [simp]:
  "gF (broadcast_results c s) = gF s"
  "gR (broadcast_results c s) = gR s"
  "gK (broadcast_results c s) = gK s"
  "gRS_cap (broadcast_results c s) = gRS_cap s"
  "g_next_tag (broadcast_results c s) = g_next_tag s"
  "g_trace_done (broadcast_results c s) = g_trace_done s"
  "q_dispatch (broadcast_results c s) = q_dispatch s"
  "rs (broadcast_results c s) = rs s"
  "latch_fd_cur (broadcast_results c s) = latch_fd_cur s"
  "latch_fd_nxt (broadcast_results c s) = latch_fd_nxt s"
  "latch_ds_cur (broadcast_results c s) = latch_ds_cur s"
  "latch_ds_nxt (broadcast_results c s) = latch_ds_nxt s"
  "latch_se_cur (broadcast_results c s) = latch_se_cur s"
  "latch_se_nxt (broadcast_results c s) = latch_se_nxt s"
  "g_cycle (broadcast_results c s) = g_cycle s"
  "g_retired (broadcast_results c s) = g_retired s"
  "g_issued_total (broadcast_results c s) = g_issued_total s"
  "g_disp_q_sum (broadcast_results c s) = g_disp_q_sum s"
  "g_disp_q_max (broadcast_results c s) = g_disp_q_max s"
  "source (broadcast_results c s) = source s"
  by (simp_all add: broadcast_results_closed)

lemma start_loop_frame:
  "start_loop c hs s = Inr s' \<Longrightarrow>
     gF s' = gF s \<and> gR s' = gR s \<and> gK s' = gK s \<and> gRS_cap s' = gRS_cap s \<and>
     g_next_tag s' = g_next_tag s \<and> g_trace_done s' = g_trace_done s \<and>
     q_dispatch s' = q_dispatch s \<and> rs s' = rs s \<and> st_update s' = st_update s \<and>
     bus_wait s' = bus_wait s \<and> latch_fd_cur s' = latch_fd_cur s \<and>
     latch_fd_nxt s' = latch_fd_nxt s \<and> latch_ds_cur s' = latch_ds_cur s \<and>
     latch_ds_nxt s' = latch_ds_nxt s \<and> latch_se_cur s' = latch_se_cur s \<and>
     latch_se_nxt s' = latch_se_nxt s \<and> reg_map s' = reg_map s \<and>
     g_cycle s' = g_cycle s \<and> g_retired s' = g_retired s \<and>
     g_issued_total s' = g_issued_total s \<and> g_disp_q_sum s' = g_disp_q_sum s \<and>
     g_disp_q_max s' = g_disp_q_max s \<and> source s' = source s \<and>
     length (fu_pool s') = length (fu_pool s) \<and> length (g_store s') = length (g_store s)"
proof (induction hs arbitrary: s)
  case Nil
  then show ?case by simp
next
  case (Cons h hs)
  from Cons.prems obtain s1 where s1: "start_one c h s = Inr s1" "start_loop c hs s1 = Inr s'"
    by (auto split: sum.splits)
  from s1(1) have "gF s1 = gF s \<and> gR s1 = gR s \<and> gK s1 = gK s \<and> gRS_cap s1 = gRS_cap s \<and>
     g_next_tag s1 = g_next_tag s \<and> g_trace_done s1 = g_trace_done s \<and>
     q_dispatch s1 = q_dispatch s \<and> rs s1 = rs s \<and> st_update s1 = st_update s \<and>
     bus_wait s1 = bus_wait s \<and> latch_fd_cur s1 = latch_fd_cur s \<and>
     latch_fd_nxt s1 = latch_fd_nxt s \<and> latch_ds_cur s1 = latch_ds_cur s \<and>
     latch_ds_nxt s1 = latch_ds_nxt s \<and> latch_se_cur s1 = latch_se_cur s \<and>
     latch_se_nxt s1 = latch_se_nxt s \<and> reg_map s1 = reg_map s \<and>
     g_cycle s1 = g_cycle s \<and> g_retired s1 = g_retired s \<and>
     g_issued_total s1 = g_issued_total s \<and> g_disp_q_sum s1 = g_disp_q_sum s \<and>
     g_disp_q_max s1 = g_disp_q_max s \<and> source s1 = source s \<and>
     length (fu_pool s1) = length (fu_pool s) \<and> length (g_store s1) = length (g_store s)"
    by (auto simp add: start_one_def upd_inst_def upd_fu_def split: option.splits)
  with Cons.IH[OF s1(2)] show ?case by simp
qed

lemma start_executions_frame:
  "start_executions c s = Inr s' \<Longrightarrow>
     gF s' = gF s \<and> gR s' = gR s \<and> gK s' = gK s \<and> gRS_cap s' = gRS_cap s \<and>
     g_next_tag s' = g_next_tag s \<and> g_trace_done s' = g_trace_done s \<and>
     q_dispatch s' = q_dispatch s \<and> rs s' = rs s \<and> st_update s' = st_update s \<and>
     bus_wait s' = bus_wait s \<and> latch_fd_cur s' = latch_fd_cur s \<and>
     latch_fd_nxt s' = latch_fd_nxt s \<and> latch_ds_cur s' = latch_ds_cur s \<and>
     latch_ds_nxt s' = latch_ds_nxt s \<and> latch_se_cur s' = [] \<and>
     latch_se_nxt s' = latch_se_nxt s \<and> reg_map s' = reg_map s \<and>
     g_cycle s' = g_cycle s \<and> g_retired s' = g_retired s \<and>
     g_issued_total s' = g_issued_total s \<and> g_disp_q_sum s' = g_disp_q_sum s \<and>
     g_disp_q_max s' = g_disp_q_max s \<and> source s' = source s \<and>
     length (fu_pool s') = length (fu_pool s) \<and> length (g_store s') = length (g_store s)"
  unfolding start_executions_def
  by (auto split: if_splits sum.splits dest!: start_loop_frame)

lemma proc_cycle_config:
  assumes "proc_cycle c s = Inr s'"
  shows "gF s' = gF s \<and> gR s' = gR s \<and> gK s' = gK s \<and> gRS_cap s' = gRS_cap s"
proof -
  from assms obtain s1 where
    s1: "start_executions c (broadcast_results c (tick_execute_units c (retire_state_update s))) = Inr s1"
    and s': "s' = back_end c s1"
    by (auto simp add: proc_cycle_def split: sum.splits)
  from start_executions_frame[OF s1] s' show ?thesis by simp
qed

lemma loop_iter_config:
  assumes "loop_iter n c s = Some (c', s')"
  shows "gF s' = gF s \<and> gR s' = gR s \<and> gK s' = gK s \<and> gRS_cap s' = gRS_cap s"
  by (rule loop_iter_invariant[OF assms,
        where I = "\<lambda>c x. gF x = gF s \<and> gR x = gR s \<and> gK x = gK s \<and> gRS_cap x = gRS_cap s"])
     (auto dest: proc_cycle_config)


section \<open>Cycles of an empty pipeline\<close>

lemma fold_tick_fu_idle:
  "\<forall>k \<in> set ks. fu_inst (fu_pool s ! k) = None \<Longrightarrow> fold (tick_fu c) ks s = s"
  by (induction ks) (simp_all add: tick_fu_def)

lemma tick_execute_units_idle:
  assumes "list_all (\<lambda>f. fu_inst f = None) (fu_pool s)"
  shows "tick_execute_units c s = s"
proof -
  have "\<forall>k \<in> set [0..<length (fu_pool s)]. fu_inst (fu_pool s ! k) = None"
    using assms by (simp add: list_all_length)
  then show ?thesis unfolding tick_execute_units_def by (rule fold_tick_fu_idle)
qed

lemma quiet_front:
  assumes "quiet s"
  shows "start_executions c (broadcast_results c (tick_execute_units c (retire_state_update s)))
           = Inr s"
proof -
  have 1: "retire_state_update s = s" using assms by (simp add: quiet_def retire_state_update_def)
  have 2: "tick_execute_units c s = s" using assms by (simp add: quiet_def tick_execute_units_idle)
  have 3: "broadcast_results c s = s" using assms by (simp add: quiet_def broadcast_results_def)
  have 4: "start_executions c s = Inr s" using assms by (simp add: quiet_def start_executions_def)
  show ?thesis by (simp add: 1 2 3 4)
qed

lemma quiet_pipeline_empty: "quiet s \<Longrightarrow> pipeline_empty s"
  by (simp add: quiet_def pipeline_empty_def)

lemma quiet_middle:
  assumes "quiet s"
  shows "dispatch_to_schedule (issue_stage c (sample_disp_q
           (move_into_dispatch c (insert_into_rs c s)))) = s"
proof -
  have 1: "insert_into_rs c s = s" using assms by (simp add: quiet_def insert_into_rs_def)
  have 2: "move_into_dispatch c s = s" using assms by (simp add: quiet_def move_into_dispatch_def)
  have 3: "sample_disp_q s = s" using assms by (simp add: quiet_def sample_disp_q_def)
  have 4: "issue_stage c s = s" using assms by (simp add: quiet_def issue_stage_def issue_ready_def)
  have 5: "dispatch_to_schedule s = s"
    using assms by (subst dispatch_to_schedule.simps) (simp add: quiet_def)
  show ?thesis by (simp add: 1 2 3 4 5)
qed

lemma quiet_proc_cycle:
  assumes "quiet s"
  shows "proc_cycle c s = Inr (advance_latches (fetch_instructions c s))"
  using quiet_front[OF assms] quiet_middle[OF assms]
  by (simp add: proc_cycle_def back_end_def)

lemma quiet_no_fetch:
  assumes "quiet s" and "gF s = 0"
  shows "proc_cycle c s = Inr s"
proof -
  have "fetch_instructions c s = s" using assms(2) by (simp add: fetch_instructions_def)
  moreover have "advance_latches s = s" using assms(1) by (simp add: quiet_def advance_latches_def)
  ultimately show ?thesis using quiet_proc_cycle[OF assms(1)] by simp
qed

lemma quiet_eof:
  assumes "quiet s" and "0 < gF s" and "source s = []" and "\<not> g_trace_done s"
  shows "proc_cycle c s = Inr (s\<lparr>g_trace_done := True\<rparr>)"
proof -
  obtain n where n: "gF s = Suc n" using assms(2) by (cases "gF s") auto
  have "fetch_instructions c s = s\<lparr>g_trace_done := True\<rparr>"
    using assms(3,4) n by (simp add: fetch_instructions_def read_instruction_def)
  moreover have "advance_latches (s\<lparr>g_trace_done := True\<rparr>) = s\<lparr>g_trace_done := True\<rparr>"
    using assms(1) by (simp add: quiet_def advance_latches_def)
  ultimately show ?thesis using quiet_proc_cycle[OF assms(1)] by simp
qed

lemma list_all_idle_replicate: "list_all (\<lambda>f. fu_inst f = None) (replicate n (idle_fu t))"
  by (simp add: list_all_length idle_fu_def)

lemma setup_proc_pool:
  "fu_pool (setup_proc r k0 k1 k2 f s) =
     replicate k0 (idle_fu 0) @ replicate k1 (idle_fu 1) @ replicate k2 (idle_fu 2)"
  by (simp add: setup_proc_def kTypes_def upt_rec numeral_2_eq_2)

lemma setup_proc_quiet: "quiet (setup_proc r k0 k1 k2 f s)"
  by (simp add: quiet_def setup_proc_pool list_all_idle_replicate) (simp add: setup_proc_def)

lemma zero_width_loop:
  assumes "quiet s" and "gF s = 0" and "\<not> g_trace_done s"
  shows "loop_iter n c s = Some (c + n, s)"
  using assms by (induction n arbitrary: c) (simp_all add: quiet_no_fetch)


section \<open>The one-instruction run, cycle by cycle\<close>

lemma head_pool:
  assumes "fu_pool s \<noteq> []"
  obtains f0 rest where "fu_pool s = f0 # rest"
  using assms by (cases "fu_pool s") auto

lemma dispatch_one:
  assumes "q_dispatch m = [h]" "rs m = []" "latch_ds_nxt m = []" "2 \<le> gRS_cap m"
  shows "dispatch_to_schedule m = m\<lparr>q_dispatch := [], latch_ds_nxt := [h]\<rparr>"
proof -
  have c: "gRS_cap m \<noteq> 0" using assms(4) by simp
  show ?thesis
    apply (subst dispatch_to_schedule.simps)
    apply (simp add: assms(1-3) c)
    apply (subst dispatch_to_schedule.simps)
    apply (simp add: assms(1-3) c)
    done
qed

lemma dispatch_none: "q_dispatch m = [] \<Longrightarrow> dispatch_to_schedule m = m"
  by (subst dispatch_to_schedule.simps) simp

lemma fetch_eof:
  assumes "0 < gF s" "source s = []"
  shows "fetch_instructions c s = s\<lparr>g_trace_done := True\<rparr>"
proof -
  obtain n where n: "gF s = Suc n" using assms(1) by (cases "gF s") auto
  show ?thesis
  proof (cases "g_trace_done s")
    case True
    then have "s\<lparr>g_trace_done := True\<rparr> = s" by simp
    then show ?thesis using True by (simp add: fetch_instructions_def)
  next
    case False
    then show ?thesis using n assms(2) by (simp add: fetch_instructions_def read_instruction_def)
  qed
qed

lemma fetch_done: "g_trace_done s \<Longrightarrow> fetch_instructions c s = s"
  by (simp add: fetch_instructions_def)

lemma tick_execute_units_head:
  assumes "fu_pool s = f0 # rest" and "list_all (\<lambda>f. fu_inst f = None) rest"
  shows "tick_execute_units c s = tick_fu c 0 s"
proof -
  have up: "[0..<length (fu_pool s)] = 0 # [1..<Suc (length rest)]"
    using assms(1) by (simp add: upt_rec)
  have pool': "\<exists>g. fu_pool (tick_fu c 0 s) = g # rest"
    using assms(1) by (auto simp add: tick_fu_def upd_fu_def upd_inst_def Let_def split: option.splits)
  then obtain g where g: "fu_pool (tick_fu c 0 s) = g # rest" by blast
  have "\<forall>k \<in> set [1..<Suc (length rest)]. fu_inst (fu_pool (tick_fu c 0 s) ! k) = None"
    using assms(2) g by (auto simp add: list_all_length nth_Cons split: nat.splits)
  then have "fold (tick_fu c) [1..<Suc (length rest)] (tick_fu c 0 s) = tick_fu c 0 s"
    by (rule fold_tick_fu_idle)
  then show ?thesis unfolding tick_execute_units_def up by simp
qed

lemma step01:
  assumes "quiet s" "0 < gF s" "0 < gR s" "2 \<le> gRS_cap s" "fu_pool s \<noteq> []"
    "fu_type (hd (fu_pool s)) = 0" "source s = [x]" "g_store s = []"
    "g_next_tag s = 1" "g_retired s = 0" "\<not> g_trace_done s"
    "fu_type_from_opcode (op_code x) = 0" "dest_reg x = -1" "src_reg0 x = -1" "src_reg1 x = -1"
  shows "\<exists>s'. proc_cycle 1 s = Inr s' \<and> phase1 s'"
proof -
  obtain n where n: "gF s = Suc n" using assms(2) by (cases "gF s") auto
  have q: "q_dispatch s = []" "rs s = []" "st_update s = []" "bus_wait s = []"
      "latch_fd_cur s = []" "latch_fd_nxt s = []" "latch_ds_cur s = []"
      "latch_ds_nxt s = []" "latch_se_cur s = []" "latch_se_nxt s = []"
      "list_all (\<lambda>f. fu_inst f = None) (fu_pool s)"
    using assms(1) by (simp_all add: quiet_def)
  obtain f0 rest where p: "fu_pool s = f0 # rest" using assms(5) by (rule head_pool)
  have "phase1 (advance_latches (fetch_instructions 1 s))"
    using assms(2-) q n p
    by (cases n)
       (simp_all add: phase1_def single_cfg_def fresh_inst_def fetch_instructions_def
          read_instruction_def new_inst_def advance_latches_def)
  then show ?thesis using quiet_proc_cycle[OF assms(1)] by simp
qed

lemma step12:
  assumes "phase1 s"
  shows "\<exists>s'. proc_cycle 2 s = Inr s' \<and> phase2 s'"
proof -
  have a: "single_cfg s" "fu_inst (hd (fu_pool s)) = None" "latch_fd_cur s = [0]"
      "latch_ds_cur s = []" "latch_se_cur s = []" "rs s = []" "st_update s = []"
      "g_retired s = 0" "\<not> issued (g_store s ! 0)" "fresh_inst (g_store s ! 0)"
    using assms by (simp_all add: phase1_def)
  have b: "0 < gF s" "0 < gR s" "2 \<le> gRS_cap s" "fu_pool s \<noteq> []"
      "fu_type (hd (fu_pool s)) = 0" "list_all (\<lambda>f. fu_inst f = None) (tl (fu_pool s))"
      "source s = []" "length (g_store s) = 1" "g_next_tag s = 2"
      "inst_type (g_store s ! 0) = 0" "tag (g_store s ! 0) = 1"
      "dest_reg (raw (g_store s ! 0)) = -1" "src_reg0 (raw (g_store s ! 0)) = -1"
      "src_reg1 (raw (g_store s ! 0)) = -1" "q_dispatch s = []" "bus_wait s = []"
      "latch_fd_nxt s = []" "latch_ds_nxt s = []" "latch_se_nxt s = []"
    using a(1) by (simp_all add: single_cfg_def)
  obtain f0 rest where p: "fu_pool s = f0 # rest" using b(4) by (rule head_pool)
  have idle: "list_all (\<lambda>f. fu_inst f = None) (fu_pool s)" using p a(2) b(6) by simp
  have front: "start_executions 2 (broadcast_results 2 (tick_execute_units 2 (retire_state_update s))) = Inr s"
    using a(5,7) b(16) by (simp add: retire_state_update_def tick_execute_units_idle[OF idle]
        broadcast_results_def start_executions_def)
  let ?m = "sample_disp_q (move_into_dispatch 2 (insert_into_rs 2 s))"
  have i1: "insert_into_rs 2 s = s" using a(4) by (simp add: insert_into_rs_def)
  have m: "issue_stage 2 ?m = ?m"
    using a(6) by (simp add: issue_stage_def issue_ready_def i1)
  have qm: "q_dispatch ?m = [0]" "rs ?m = []" "latch_ds_nxt ?m = []" "2 \<le> gRS_cap ?m"
    using a(3) a(6) b(15) b(18) b(3) by (simp_all add: move_into_dispatch_def move_one_def i1)
  note d = dispatch_one[OF qm]
  have f: "0 < gF (?m\<lparr>q_dispatch := [], latch_ds_nxt := [0]\<rparr>)"
     "source (?m\<lparr>q_dispatch := [], latch_ds_nxt := [0]\<rparr>) = []"
    using b(1) b(7) by simp_all
  have "phase2 (back_end 2 s)"
    unfolding back_end_def m d fetch_eof[OF f]
    using a b
    by (simp add: phase2_def single_cfg_def fresh_inst_def advance_latches_def
        move_into_dispatch_def move_one_def i1 sample_disp_q_def upd_inst_def)
  then show ?thesis using front by (simp add: proc_cycle_def)
qed

lemma projected_pos:
  assumes "fu_pool s = f0 # rest" "fu_inst f0 = None" "fu_type f0 = 0"
  shows "0 < projected_free_fus c s ! 0"
proof -
  have "projected_free_fus c s ! 0 = lookahead_reference c s 0"
    by (rule projected_free_fus_reference) (simp add: kTypes_def)
  moreover have "0 < idle_of_type 0 (fu_pool s)" using assms by (simp add: idle_of_type_def)
  ultimately show ?thesis by (simp add: lookahead_reference_def)
qed

lemma single_cfg_facts:
  assumes "single_cfg s"
  shows "0 < gF s" "0 < gR s" "2 \<le> gRS_cap s" "fu_pool s \<noteq> []"
      "fu_type (hd (fu_pool s)) = 0" "list_all (\<lambda>f. fu_inst f = None) (tl (fu_pool s))"
      "source s = []" "length (g_store s) = 1" "g_next_tag s = 2"
      "inst_type (g_store s ! 0) = 0" "tag (g_store s ! 0) = 1"
      "dest_reg (raw (g_store s ! 0)) = -1" "src_reg0 (raw (g_store s ! 0)) = -1"
      "src_reg1 (raw (g_store s ! 0)) = -1" "q_dispatch s = []" "bus_wait s = []"
      "latch_fd_nxt s = []" "latch_ds_nxt s = []" "latch_se_nxt s = []"
  using assms by (simp_all add: single_cfg_def)

lemma idle_front:
  assumes "list_all (\<lambda>f. fu_inst f = None) (fu_pool s)" "st_update s = []" "bus_wait s = []"
  shows "broadcast_results c (tick_execute_units c (retire_state_update s)) = s"
  using assms(2,3) by (simp add: retire_state_update_def tick_execute_units_idle[OF assms(1)]
        broadcast_results_def)

lemma step23:
  assumes "phase2 s"
  shows "\<exists>s'. proc_cycle 3 s = Inr s' \<and> phase3 s'"
proof -
  have a: "single_cfg s" "fu_inst (hd (fu_pool s)) = None" "latch_fd_cur s = []"
      "latch_ds_cur s = [0]" "latch_se_cur s = []" "rs s = []" "st_update s = []"
      "g_retired s = 0" "\<not> issued (g_store s ! 0)" "fresh_inst (g_store s ! 0)" "g_trace_done s"
    using assms by (simp_all add: phase2_def)
  note b = single_cfg_facts[OF a(1)]
  obtain f0 rest where p: "fu_pool s = f0 # rest" using b(4) by (rule head_pool)
  have idle: "list_all (\<lambda>f. fu_inst f = None) (fu_pool s)" using p a(2) b(6) by simp
  have front: "start_executions 3 (broadcast_results 3 (tick_execute_units 3 (retire_state_update s))) = Inr s"
    using a(5) by (simp add: idle_front[OF idle a(7) b(16)] start_executions_def)
  obtain i where st: "g_store s = [i]" using b(8) by (cases "g_store s") auto
  let ?i = "i\<lparr>sched_c := 3, sched_ready_c := 3, src_ready0 := True, src_tag0 := -1,
               src_ready1 := True, src_tag1 := -1\<rparr>"
  let ?a = "s\<lparr>g_store := [?i], rs := [0], latch_ds_cur := []\<rparr>"
  have ins: "insert_into_rs 3 s = ?a"
    using a(4,6) b(12-14) st
    by (simp add: insert_into_rs_def insert_one_def src_lookup_def upd_inst_def kMaxRegs_def)
  have mv: "move_into_dispatch 3 ?a = ?a" using a(3) by (simp add: move_into_dispatch_def)
  let ?m = "sample_disp_q ?a"
  have pp: "0 < projected_free_fus 3 ?m ! 0"
    by (rule projected_pos[where ?f0.0 = f0 and rest = rest]) (use p a(2) b(5) in \<open>simp_all add: sample_disp_q_def\<close>)
  have iss: "issue_ready 3 ?m =
      (1, ?m\<lparr>g_store := [?i\<lparr>issued := True\<rparr>], latch_se_nxt := [0]\<rparr>)"
    using pp a(9) b(10,19) st
    by (simp add: issue_ready_def sort_by_def sample_disp_q_def upd_inst_def Let_def)
  let ?n = "?m\<lparr>g_store := [?i\<lparr>issued := True\<rparr>], latch_se_nxt := [0],
               g_issued_total := g_issued_total s + 1\<rparr>"
  have is2: "issue_stage 3 ?m = ?n"
    unfolding issue_stage_def iss by simp
  have dn: "dispatch_to_schedule ?n = ?n"
    by (rule dispatch_none) (simp add: b(15))
  have fn: "fetch_instructions 3 ?n = ?n"
    by (rule fetch_done) (simp add: a(11))
  have "phase3 (back_end 3 s)"
    unfolding back_end_def ins mv is2 dn fn
    using a b st
    by (simp add: phase3_def single_cfg_def fresh_inst_def advance_latches_def sample_disp_q_def)
  then show ?thesis using front by (simp add: proc_cycle_def)
qed
lemma issue_stage_all_issued:
  assumes "rs s = [0]" "issued (g_store s ! 0)"
  shows "issue_stage c s = s"
  using assms by (simp add: issue_stage_def issue_ready_def sort_by_def Let_def)

lemma step34:
  assumes "phase3 s"
  shows "\<exists>s'. proc_cycle 4 s = Inr s' \<and> phase4 s'"
proof -
  have a: "single_cfg s" "fu_inst (hd (fu_pool s)) = None" "latch_fd_cur s = []"
      "latch_ds_cur s = []" "latch_se_cur s = [0]" "rs s = [0]" "st_update s = []"
      "g_retired s = 0" "issued (g_store s ! 0)" "fresh_inst (g_store s ! 0)"
      "src_ready0 (g_store s ! 0)" "src_ready1 (g_store s ! 0)" "g_trace_done s"
    using assms by (simp_all add: phase3_def)
  note b = single_cfg_facts[OF a(1)]
  obtain f0 rest where p: "fu_pool s = f0 # rest" using b(4) by (rule head_pool)
  have idle: "list_all (\<lambda>f. fu_inst f = None) (fu_pool s)" using p a(2) b(6) by simp
  obtain i where st: "g_store s = [i]" using b(8) by (cases "g_store s") auto
  let ?a = "s\<lparr>fu_pool := f0\<lparr>fu_inst := Some 0, fu_remaining := 1\<rparr> # rest,
              g_store := [i\<lparr>fu := Some 0, exec_c := 4\<rparr>], latch_se_cur := []\<rparr>"
  have front: "start_executions 4 (broadcast_results 4 (tick_execute_units 4 (retire_state_update s))) = Inr ?a"
    using a(5) a(2) b(5,10) p st
    by (simp add: idle_front[OF idle a(7) b(16)] start_executions_def start_one_def
        find_free_fu_def upd_inst_def upd_fu_def kLatency_def)
  have ins: "insert_into_rs 4 ?a = ?a" using a(4) by (simp add: insert_into_rs_def)
  have mv: "move_into_dispatch 4 ?a = ?a" using a(3) by (simp add: move_into_dispatch_def)
  let ?m = "sample_disp_q ?a"
  have is2: "issue_stage 4 ?m = ?m"
    by (rule issue_stage_all_issued) (use a(6,9) st in simp_all)
  have dn: "dispatch_to_schedule ?m = ?m"
    by (rule dispatch_none) (simp add: b(15))
  have fn: "fetch_instructions 4 ?m = ?m"
    by (rule fetch_done) (simp add: a(13))
  have "phase4 (back_end 4 ?a)"
    unfolding back_end_def ins mv is2 dn fn
    using a b st p
    by (simp add: phase4_def single_cfg_def fresh_inst_def advance_latches_def sample_disp_q_def)
  then show ?thesis using front by (simp add: proc_cycle_def)
qed

lemma step45:
  assumes "phase4 s"
  shows "\<exists>s'. proc_cycle 5 s = Inr s' \<and> phase5 s'"
proof -
  have a: "single_cfg s" "fu_inst (hd (fu_pool s)) = Some 0" "fu_remaining (hd (fu_pool s)) = 1"
      "latch_fd_cur s = []" "latch_ds_cur s = []" "latch_se_cur s = []" "rs s = [0]"
      "st_update s = []" "g_retired s = 0" "issued (g_store s ! 0)"
      "\<not> waiting_bus (g_store s ! 0)" "\<not> enqueued_bus (g_store s ! 0)"
      "completion_c (g_store s ! 0) = 0" "fu (g_store s ! 0) = Some 0"
      "src_ready0 (g_store s ! 0)" "src_ready1 (g_store s ! 0)" "g_trace_done s"
    using assms by (simp_all add: phase4_def)
  note b = single_cfg_facts[OF a(1)]
  obtain f0 rest where p: "fu_pool s = f0 # rest" using b(4) by (rule head_pool)
  have rest: "list_all (\<lambda>f. fu_inst f = None) rest" using p b(6) by simp
  obtain i where st: "g_store s = [i]" using b(8) by (cases "g_store s") auto
  obtain r where r: "gR s = Suc r" using b(2) by (cases "gR s") auto
  have rt: "retire_state_update s = s" using a(8) by (simp add: retire_state_update_def)
  let ?t = "s\<lparr>fu_pool := f0\<lparr>fu_remaining := 0\<rparr> # rest,
              g_store := [i\<lparr>completion_c := 5, waiting_bus := True, enqueued_bus := True\<rparr>],
              bus_wait := [0]\<rparr>"
  have tk: "tick_execute_units 5 s = ?t"
    unfolding tick_execute_units_head[OF p rest]
    using a(2,3,11-13) b(16) p st
    by (simp add: tick_fu_def upd_fu_def upd_inst_def Let_def)
  let ?b = "s\<lparr>fu_pool := f0\<lparr>fu_remaining := 0, fu_inst := None\<rparr> # rest,
              g_store := [i\<lparr>completion_c := 5, waiting_bus := False, enqueued_bus := False,
                             fu := None, state_c := 5\<rparr>],
              bus_wait := [], st_update := [0]\<rparr>"
  have bc: "broadcast_results 5 ?t = ?b"
    using r a(7,8,14-16) b(11,12) st
    by (simp add: broadcast_results_closed sort_by_def broadcast_one_def free_fu_of_def
        clear_reg_map_def wakeup_rs_sources_def wakeup_one_def upd_inst_def upd_fu_def Let_def)
  have front: "start_executions 5 (broadcast_results 5 (tick_execute_units 5 (retire_state_update s))) = Inr ?b"
    unfolding rt tk bc using a(6) by (simp add: start_executions_def)
  have ins: "insert_into_rs 5 ?b = ?b" using a(5) by (simp add: insert_into_rs_def)
  have mv: "move_into_dispatch 5 ?b = ?b" using a(4) by (simp add: move_into_dispatch_def)
  let ?m = "sample_disp_q ?b"
  have is2: "issue_stage 5 ?m = ?m"
    by (rule issue_stage_all_issued) (use a(7,10) st in simp_all)
  have dn: "dispatch_to_schedule ?m = ?m"
    by (rule dispatch_none) (simp add: b(15))
  have fn: "fetch_instructions 5 ?m = ?m"
    by (rule fetch_done) (simp add: a(17))
  have "phase5 (back_end 5 ?b)"
    unfolding back_end_def ins mv is2 dn fn
    using a b st p
    by (simp add: phase5_def single_cfg_def advance_latches_def sample_disp_q_def)
  then show ?thesis using front by (simp add: proc_cycle_def)
qed

lemma step56:
  assumes "phase5 s"
  shows "\<exists>s'. proc_cycle 6 s = Inr s' \<and> phase6 s'"
proof -
  have a: "single_cfg s" "fu_inst (hd (fu_pool s)) = None" "latch_fd_cur s = []"
      "latch_ds_cur s = []" "latch_se_cur s = []" "rs s = [0]" "st_update s = [0]"
      "g_retired s = 0" "issued (g_store s ! 0)" "g_trace_done s"
    using assms by (simp_all add: phase5_def)
  note b = single_cfg_facts[OF a(1)]
  obtain f0 rest where p: "fu_pool s = f0 # rest" using b(4) by (rule head_pool)
  have idle: "list_all (\<lambda>f. fu_inst f = None) (fu_pool s)" using p a(2) b(6) by simp
  obtain i where st: "g_store s = [i]" using b(8) by (cases "g_store s") auto
  let ?r = "s\<lparr>rs := [], g_store := [i\<lparr>issued := True\<rparr>], g_retired := 1, st_update := []\<rparr>"
  have rt: "retire_state_update s = ?r"
    using a(6-8) st
    by (simp add: retire_state_update_def retire_one_def remove_from_rs_def upd_inst_def Let_def)
  have q: "quiet ?r" using a b idle by (simp add: quiet_def)
  have "proc_cycle 6 ?r = Inr (advance_latches (fetch_instructions 6 ?r))"
    by (rule quiet_proc_cycle[OF q])
  moreover have "retire_state_update ?r = ?r" by (simp add: retire_state_update_def)
  ultimately have pc: "proc_cycle 6 s = Inr (advance_latches (fetch_instructions 6 ?r))"
    by (simp add: proc_cycle_def rt)
  have fn: "fetch_instructions 6 ?r = ?r" by (rule fetch_done) (simp add: a(10))
  have "phase6 (advance_latches ?r)"
    using a b idle by (simp add: phase6_def quiet_def advance_latches_def)
  then show ?thesis using pc fn by simp
qed
lemma run_loop_step:
  assumes "\<not> g_trace_done s \<or> \<not> pipeline_empty s" "proc_cycle (Suc c) s = Inr s'"
  shows "run_loop c s = run_loop (Suc c) s'"
  using assms by (subst run_loop.simps) auto

lemma run_loop_exit:
  assumes "g_trace_done s" "pipeline_empty s"
  shows "run_loop c s = Some (Inr (c, s))"
  using assms by (subst run_loop.simps) auto

lemma single_run:
  assumes "0 < f" "0 < k0"
    "fu_type_from_opcode (op_code x) = 0" "dest_reg x = -1" "src_reg0 x = -1" "src_reg1 x = -1"
  shows "\<exists>s'. run_loop 0 (setup_proc r k0 k1 k2 f (s\<lparr>source := [x]\<rparr>)) =
            Some (Inr (6, s')) \<and> phase6 s'"
proof -
  let ?S = "setup_proc r k0 k1 k2 f (s\<lparr>source := [x]\<rparr>)"
  obtain m where m: "k0 = Suc m" using assms(2) by (cases k0) auto
  have q: "quiet ?S" by (rule setup_proc_quiet)
  have pool: "fu_pool ?S \<noteq> []" "fu_type (hd (fu_pool ?S)) = 0"
    using m by (simp_all add: setup_proc_pool idle_fu_def)
  have c0: "0 < gF ?S" "0 < gR ?S" "2 \<le> gRS_cap ?S" "source ?S = [x]"
    "g_store ?S = []" "g_next_tag ?S = 1" "g_retired ?S = 0" "\<not> g_trace_done ?S"
    using assms(1,2) m by (simp_all add: setup_proc_def)
  obtain s1 where s1: "proc_cycle 1 ?S = Inr s1" "phase1 s1"
    using step01[OF q c0(1-3) pool c0(4-8) assms(3-6)] by blast
  obtain s2 where s2: "proc_cycle 2 s1 = Inr s2" "phase2 s2" using step12[OF s1(2)] by blast
  obtain s3 where s3: "proc_cycle 3 s2 = Inr s3" "phase3 s3" using step23[OF s2(2)] by blast
  obtain s4 where s4: "proc_cycle 4 s3 = Inr s4" "phase4 s4" using step34[OF s3(2)] by blast
  obtain s5 where s5: "proc_cycle 5 s4 = Inr s5" "phase5 s5" using step45[OF s4(2)] by blast
  obtain s6 where s6: "proc_cycle 6 s5 = Inr s6" "phase6 s6" using step56[OF s5(2)] by blast
  have n1: "\<not> pipeline_empty s1" using s1(2) by (simp add: phase1_def pipeline_empty_def)
  have n2: "\<not> pipeline_empty s2" using s2(2) by (simp add: phase2_def pipeline_empty_def)
  have n3: "\<not> pipeline_empty s3" using s3(2) by (simp add: phase3_def pipeline_empty_def)
  have n4: "\<not> pipeline_empty s4" using s4(2) by (simp add: phase4_def pipeline_empty_def)
  have n5: "\<not> pipeline_empty s5" using s5(2) by (simp add: phase5_def pipeline_empty_def)
  have e6: "g_trace_done s6" "pipeline_empty s6"
    using s6(2) by (simp_all add: phase6_def quiet_pipeline_empty)
  have "run_loop 0 ?S = run_loop 1 s1"
    using run_loop_step[of ?S 0 s1] c0(8) s1(1) by simp
  also have "\<dots> = run_loop 2 s2" using run_loop_step[of s1 1 s2] n1 s2(1) by (simp add: numeral_2_eq_2)
  also have "\<dots> = run_loop 3 s3" using run_loop_step[of s2 2 s3] n2 s3(1) by (simp add: eval_nat_numeral)
  also have "\<dots> = run_loop 4 s4" using run_loop_step[of s3 3 s4] n3 s4(1) by (simp add: eval_nat_numeral)
  also have "\<dots> = run_loop 5 s5" using run_loop_step[of s4 4 s5] n4 s5(1) by (simp add: eval_nat_numeral)
  also have "\<dots> = run_loop 6 s6" using run_loop_step[of s5 5 s6] n5 s6(1) by (simp add: eval_nat_numeral)
  also have "\<dots> = Some (Inr (6, s6))" by (rule run_loop_exit[OF e6])
  finally show ?thesis using s6(2) by blast
qed


section \<open>What each stage does to the records of the store and to the units\<close>

lemma nth_upd_if: "xs[i := v] ! j = (if i = j \<and> i < length xs then v else xs ! j)"
  by (cases "i < length xs") (auto simp add: nth_list_update list_update_beyond)


lemma retire_one_keep [simp]:
  "length (g_store (retire_one h s)) = length (g_store s)"
  "tag (g_store (retire_one h s) ! x) = tag (g_store s ! x)"
  "inst_type (g_store (retire_one h s) ! x) = inst_type (g_store s ! x)"
  "waiting_bus (g_store (retire_one h s) ! x) = waiting_bus (g_store s ! x)"
  "enqueued_bus (g_store (retire_one h s) ! x) = enqueued_bus (g_store s ! x)"
  "completion_c (g_store (retire_one h s) ! x) = completion_c (g_store s ! x)"
  "fu (g_store (retire_one h s) ! x) = fu (g_store s ! x)"
  "state_c (g_store (retire_one h s) ! x) = state_c (g_store s ! x)"
  "length (fu_pool (retire_one h s)) = length (fu_pool s)"
  "fu_type (fu_pool (retire_one h s) ! j) = fu_type (fu_pool s ! j)"
  "fu_inst (fu_pool (retire_one h s) ! j) = fu_inst (fu_pool s ! j)"
  "fu_remaining (fu_pool (retire_one h s) ! j) = fu_remaining (fu_pool s ! j)"
  by (simp_all add: retire_one_def remove_from_rs_def upd_inst_def upd_fu_def Let_def nth_upd_if split: option.splits)

lemma fold_retire_one_keep [simp]:
  "length (g_store (fold retire_one xs s)) = length (g_store s)"
  "tag (g_store (fold retire_one xs s) ! x) = tag (g_store s ! x)"
  "inst_type (g_store (fold retire_one xs s) ! x) = inst_type (g_store s ! x)"
  "waiting_bus (g_store (fold retire_one xs s) ! x) = waiting_bus (g_store s ! x)"
  "enqueued_bus (g_store (fold retire_one xs s) ! x) = enqueued_bus (g_store s ! x)"
  "completion_c (g_store (fold retire_one xs s) ! x) = completion_c (g_store s ! x)"
  "fu (g_store (fold retire_one xs s) ! x) = fu (g_store s ! x)"
  "state_c (g_store (fold retire_one xs s) ! x) = state_c (g_store s ! x)"
  "length (fu_pool (fold retire_one xs s)) = length (fu_pool s)"
  "fu_type (fu_pool (fold retire_one xs s) ! j) = fu_type (fu_pool s ! j)"
  "fu_inst (fu_pool (fold retire_one xs s) ! j) = fu_inst (fu_pool s ! j)"
  "fu_remaining (fu_pool (fold retire_one xs s) ! j) = fu_remaining (fu_pool s ! j)"
  by (induction xs arbitrary: s; simp)+

lemma retire_state_update_keep [simp]:
  "length (g_store (retire_state_update s)) = length (g_store s)"
  "tag (g_store (retire_state_update s) ! x) = tag (g_store s ! x)"
  "inst_type (g_store (retire_state_update s) ! x) = inst_type (g_store s ! x)"
  "waiting_bus (g_store (retire_state_update s) ! x) = waiting_bus (g_store s ! x)"
  "enqueued_bus (g_store (retire_state_update s) ! x) = enqueued_bus (g_store s ! x)"
  "completion_c (g_store (retire_state_update s) ! x) = completion_c (g_store s ! x)"
  "fu (g_store (retire_state_update s) ! x) = fu (g_store s ! x)"
  "state_c (g_store (retire_state_update s) ! x) = state_c (g_store s ! x)"
  "length (fu_pool (retire_state_update s)) = length (fu_pool s)"
  "fu_type (fu_pool (retire_state_update s) ! j) = fu_type (fu_pool s ! j)"
  "fu_inst (fu_pool (retire_state_update s) ! j) = fu_inst (fu_pool s ! j)"
  "fu_remaining (fu_pool (retire_state_update s) ! j) = fu_remaining (fu_pool s ! j)"
  by (simp_all add: retire_state_update_def)

lemma tick_fu_keep [simp]:
  "length (g_store (tick_fu c k s)) = length (g_store s)"
  "tag (g_store (tick_fu c k s) ! x) = tag (g_store s ! x)"
  "inst_type (g_store (tick_fu c k s) ! x) = inst_type (g_store s ! x)"
  "issued (g_store (tick_fu c k s) ! x) = issued (g_store s ! x)"
  "fu (g_store (tick_fu c k s) ! x) = fu (g_store s ! x)"
  "state_c (g_store (tick_fu c k s) ! x) = state_c (g_store s ! x)"
  "length (fu_pool (tick_fu c k s)) = length (fu_pool s)"
  "fu_type (fu_pool (tick_fu c k s) ! j) = fu_type (fu_pool s ! j)"
  "fu_inst (fu_pool (tick_fu c k s) ! j) = fu_inst (fu_pool s ! j)"
  by (simp_all add: tick_fu_def upd_inst_def upd_fu_def Let_def nth_upd_if split: option.splits)

lemma fold_tick_fu_keep [simp]:
  "length (g_store (fold (tick_fu c) ks s)) = length (g_store s)"
  "tag (g_store (fold (tick_fu c) ks s) ! x) = tag (g_store s ! x)"
  "inst_type (g_store (fold (tick_fu c) ks s) ! x) = inst_type (g_store s ! x)"
  "issued (g_store (fold (tick_fu c) ks s) ! x) = issued (g_store s ! x)"
  "fu (g_store (fold (tick_fu c) ks s) ! x) = fu (g_store s ! x)"
  "state_c (g_store (fold (tick_fu c) ks s) ! x) = state_c (g_store s ! x)"
  "length (fu_pool (fold (tick_fu c) ks s)) = length (fu_pool s)"
  "fu_type (fu_pool (fold (tick_fu c) ks s) ! j) = fu_type (fu_pool s ! j)"
  "fu_inst (fu_pool (fold (tick_fu c) ks s) ! j) = fu_inst (fu_pool s ! j)"
  by (induction ks arbitrary: s; simp)+

lemma tick_execute_units_keep [simp]:
  "length (g_store (tick_execute_units c s)) = length (g_store s)"
  "tag (g_store (tick_execute_units c s) ! x) = tag (g_store s ! x)"
  "inst_type (g_store (tick_execute_units c s) ! x) = inst_type (g_store s ! x)"
  "issued (g_store (tick_execute_units c s) ! x) = issued (g_store s ! x)"
  "fu (g_store (tick_execute_units c s) ! x) = fu (g_store s ! x)"
  "state_c (g_store (tick_execute_units c s) ! x) = state_c (g_store s ! x)"
  "length (fu_pool (tick_execute_units c s)) = length (fu_pool s)"
  "fu_type (fu_pool (tick_execute_units c s) ! j) = fu_type (fu_pool s ! j)"
  "fu_inst (fu_pool (tick_execute_units c s) ! j) = fu_inst (fu_pool s ! j)"
  by (simp_all add: tick_execute_units_def)

lemma wakeup_one_keep [simp]:
  "length (g_store (wakeup_one p w s)) = length (g_store s)"
  "tag (g_store (wakeup_one p w s) ! x) = tag (g_store s ! x)"
  "inst_type (g_store (wakeup_one p w s) ! x) = inst_type (g_store s ! x)"
  "issued (g_store (wakeup_one p w s) ! x) = issued (g_store s ! x)"
  "waiting_bus (g_store (wakeup_one p w s) ! x) = waiting_bus (g_store s ! x)"
  "enqueued_bus (g_store (wakeup_one p w s) ! x) = enqueued_bus (g_store s ! x)"
  "completion_c (g_store (wakeup_one p w s) ! x) = completion_c (g_store s ! x)"
  "fu (g_store (wakeup_one p w s) ! x) = fu (g_store s ! x)"
  "state_c (g_store (wakeup_one p w s) ! x) = state_c (g_store s ! x)"
  "length (fu_pool (wakeup_one p w s)) = length (fu_pool s)"
  "fu_type (fu_pool (wakeup_one p w s) ! j) = fu_type (fu_pool s ! j)"
  "fu_inst (fu_pool (wakeup_one p w s) ! j) = fu_inst (fu_pool s ! j)"
  "fu_remaining (fu_pool (wakeup_one p w s) ! j) = fu_remaining (fu_pool s ! j)"
  by (simp_all add: wakeup_one_def upd_inst_def upd_fu_def Let_def nth_upd_if split: option.splits)

lemma fold_wakeup_one_keep [simp]:
  "length (g_store (fold (wakeup_one p) ws s)) = length (g_store s)"
  "tag (g_store (fold (wakeup_one p) ws s) ! x) = tag (g_store s ! x)"
  "inst_type (g_store (fold (wakeup_one p) ws s) ! x) = inst_type (g_store s ! x)"
  "issued (g_store (fold (wakeup_one p) ws s) ! x) = issued (g_store s ! x)"
  "waiting_bus (g_store (fold (wakeup_one p) ws s) ! x) = waiting_bus (g_store s ! x)"
  "enqueued_bus (g_store (fold (wakeup_one p) ws s) ! x) = enqueued_bus (g_store s ! x)"
  "completion_c (g_store (fold (wakeup_one p) ws s) ! x) = completion_c (g_store s ! x)"
  "fu (g_store (fold (wakeup_one p) ws s) ! x) = fu (g_store s ! x)"
  "state_c (g_store (fold (wakeup_one p) ws s) ! x) = state_c (g_store s ! x)"
  "length (fu_pool (fold (wakeup_one p) ws s)) = length (fu_pool s)"
  "fu_type (fu_pool (fold (wakeup_one p) ws s) ! j) = fu_type (fu_pool s ! j)"
  "fu_inst (fu_pool (fold (wakeup_one p) ws s) ! j) = fu_inst (fu_pool s ! j)"
  "fu_remaining (fu_pool (fold (wakeup_one p) ws s) ! j) = fu_remaining (fu_pool s ! j)"
  by (induction ws arbitrary: s; simp)+

lemma wakeup_rs_sources_keep [simp]:
  "length (g_store (wakeup_rs_sources p s)) = length (g_store s)"
  "tag (g_store (wakeup_rs_sources p s) ! x) = tag (g_store s ! x)"
  "inst_type (g_store (wakeup_rs_sources p s) ! x) = inst_type (g_store s ! x)"
  "issued (g_store (wakeup_rs_sources p s) ! x) = issued (g_store s ! x)"
  "waiting_bus (g_store (wakeup_rs_sources p s) ! x) = waiting_bus (g_store s ! x)"
  "enqueued_bus (g_store (wakeup_rs_sources p s) ! x) = enqueued_bus (g_store s ! x)"
  "completion_c (g_store (wakeup_rs_sources p s) ! x) = completion_c (g_store s ! x)"
  "fu (g_store (wakeup_rs_sources p s) ! x) = fu (g_store s ! x)"
  "state_c (g_store (wakeup_rs_sources p s) ! x) = state_c (g_store s ! x)"
  "length (fu_pool (wakeup_rs_sources p s)) = length (fu_pool s)"
  "fu_type (fu_pool (wakeup_rs_sources p s) ! j) = fu_type (fu_pool s ! j)"
  "fu_inst (fu_pool (wakeup_rs_sources p s) ! j) = fu_inst (fu_pool s ! j)"
  "fu_remaining (fu_pool (wakeup_rs_sources p s) ! j) = fu_remaining (fu_pool s ! j)"
  by (simp_all add: wakeup_rs_sources_def)

lemma free_fu_of_keep [simp]:
  "length (g_store (free_fu_of h s)) = length (g_store s)"
  "tag (g_store (free_fu_of h s) ! x) = tag (g_store s ! x)"
  "inst_type (g_store (free_fu_of h s) ! x) = inst_type (g_store s ! x)"
  "issued (g_store (free_fu_of h s) ! x) = issued (g_store s ! x)"
  "waiting_bus (g_store (free_fu_of h s) ! x) = waiting_bus (g_store s ! x)"
  "enqueued_bus (g_store (free_fu_of h s) ! x) = enqueued_bus (g_store s ! x)"
  "completion_c (g_store (free_fu_of h s) ! x) = completion_c (g_store s ! x)"
  "state_c (g_store (free_fu_of h s) ! x) = state_c (g_store s ! x)"
  "length (fu_pool (free_fu_of h s)) = length (fu_pool s)"
  "fu_type (fu_pool (free_fu_of h s) ! j) = fu_type (fu_pool s ! j)"
  by (simp_all add: free_fu_of_def upd_inst_def upd_fu_def Let_def nth_upd_if split: option.splits)

lemma clear_reg_map_keep [simp]:
  "length (g_store (clear_reg_map h s)) = length (g_store s)"
  "tag (g_store (clear_reg_map h s) ! x) = tag (g_store s ! x)"
  "inst_type (g_store (clear_reg_map h s) ! x) = inst_type (g_store s ! x)"
  "issued (g_store (clear_reg_map h s) ! x) = issued (g_store s ! x)"
  "waiting_bus (g_store (clear_reg_map h s) ! x) = waiting_bus (g_store s ! x)"
  "enqueued_bus (g_store (clear_reg_map h s) ! x) = enqueued_bus (g_store s ! x)"
  "completion_c (g_store (clear_reg_map h s) ! x) = completion_c (g_store s ! x)"
  "fu (g_store (clear_reg_map h s) ! x) = fu (g_store s ! x)"
  "state_c (g_store (clear_reg_map h s) ! x) = state_c (g_store s ! x)"
  "length (fu_pool (clear_reg_map h s)) = length (fu_pool s)"
  "fu_type (fu_pool (clear_reg_map h s) ! j) = fu_type (fu_pool s ! j)"
  "fu_inst (fu_pool (clear_reg_map h s) ! j) = fu_inst (fu_pool s ! j)"
  "fu_remaining (fu_pool (clear_reg_map h s) ! j) = fu_remaining (fu_pool s ! j)"
  by (simp_all add: clear_reg_map_def Let_def)

lemma broadcast_one_keep [simp]:
  "length (g_store (broadcast_one c h s)) = length (g_store s)"
  "tag (g_store (broadcast_one c h s) ! x) = tag (g_store s ! x)"
  "inst_type (g_store (broadcast_one c h s) ! x) = inst_type (g_store s ! x)"
  "issued (g_store (broadcast_one c h s) ! x) = issued (g_store s ! x)"
  "completion_c (g_store (broadcast_one c h s) ! x) = completion_c (g_store s ! x)"
  "length (fu_pool (broadcast_one c h s)) = length (fu_pool s)"
  "fu_type (fu_pool (broadcast_one c h s) ! j) = fu_type (fu_pool s ! j)"
  by (simp_all add: broadcast_one_def upd_inst_def upd_fu_def Let_def nth_upd_if split: option.splits)

lemma fold_broadcast_one_keep [simp]:
  "length (g_store (fold (broadcast_one c) hs s)) = length (g_store s)"
  "tag (g_store (fold (broadcast_one c) hs s) ! x) = tag (g_store s ! x)"
  "inst_type (g_store (fold (broadcast_one c) hs s) ! x) = inst_type (g_store s ! x)"
  "issued (g_store (fold (broadcast_one c) hs s) ! x) = issued (g_store s ! x)"
  "completion_c (g_store (fold (broadcast_one c) hs s) ! x) = completion_c (g_store s ! x)"
  "length (fu_pool (fold (broadcast_one c) hs s)) = length (fu_pool s)"
  "fu_type (fu_pool (fold (broadcast_one c) hs s) ! j) = fu_type (fu_pool s ! j)"
  by (induction hs arbitrary: s; simp)+

lemma broadcast_results_keep [simp]:
  "length (g_store (broadcast_results c s)) = length (g_store s)"
  "tag (g_store (broadcast_results c s) ! x) = tag (g_store s ! x)"
  "inst_type (g_store (broadcast_results c s) ! x) = inst_type (g_store s ! x)"
  "issued (g_store (broadcast_results c s) ! x) = issued (g_store s ! x)"
  "completion_c (g_store (broadcast_results c s) ! x) = completion_c (g_store s ! x)"
  "length (fu_pool (broadcast_results c s)) = length (fu_pool s)"
  "fu_type (fu_pool (broadcast_results c s) ! j) = fu_type (fu_pool s ! j)"
  by (simp_all add: broadcast_results_closed)

lemma insert_one_keep [simp]:
  "length (g_store (insert_one c h s)) = length (g_store s)"
  "tag (g_store (insert_one c h s) ! x) = tag (g_store s ! x)"
  "inst_type (g_store (insert_one c h s) ! x) = inst_type (g_store s ! x)"
  "issued (g_store (insert_one c h s) ! x) = issued (g_store s ! x)"
  "waiting_bus (g_store (insert_one c h s) ! x) = waiting_bus (g_store s ! x)"
  "enqueued_bus (g_store (insert_one c h s) ! x) = enqueued_bus (g_store s ! x)"
  "completion_c (g_store (insert_one c h s) ! x) = completion_c (g_store s ! x)"
  "fu (g_store (insert_one c h s) ! x) = fu (g_store s ! x)"
  "state_c (g_store (insert_one c h s) ! x) = state_c (g_store s ! x)"
  "length (fu_pool (insert_one c h s)) = length (fu_pool s)"
  "fu_type (fu_pool (insert_one c h s) ! j) = fu_type (fu_pool s ! j)"
  "fu_inst (fu_pool (insert_one c h s) ! j) = fu_inst (fu_pool s ! j)"
  "fu_remaining (fu_pool (insert_one c h s) ! j) = fu_remaining (fu_pool s ! j)"
  by (simp_all add: insert_one_def upd_inst_def upd_fu_def Let_def nth_upd_if split: option.splits)

lemma fold_insert_one_keep [simp]:
  "length (g_store (fold (insert_one c) hs s)) = length (g_store s)"
  "tag (g_store (fold (insert_one c) hs s) ! x) = tag (g_store s ! x)"
  "inst_type (g_store (fold (insert_one c) hs s) ! x) = inst_type (g_store s ! x)"
  "issued (g_store (fold (insert_one c) hs s) ! x) = issued (g_store s ! x)"
  "waiting_bus (g_store (fold (insert_one c) hs s) ! x) = waiting_bus (g_store s ! x)"
  "enqueued_bus (g_store (fold (insert_one c) hs s) ! x) = enqueued_bus (g_store s ! x)"
  "completion_c (g_store (fold (insert_one c) hs s) ! x) = completion_c (g_store s ! x)"
  "fu (g_store (fold (insert_one c) hs s) ! x) = fu (g_store s ! x)"
  "state_c (g_store (fold (insert_one c) hs s) ! x) = state_c (g_store s ! x)"
  "length (fu_pool (fold (insert_one c) hs s)) = length (fu_pool s)"
  "fu_type (fu_pool (fold (insert_one c) hs s) ! j) = fu_type (fu_pool s ! j)"
  "fu_inst (fu_pool (fold (insert_one c) hs s) ! j) = fu_inst (fu_pool s ! j)"
  "fu_remaining (fu_pool (fold (insert_one c) hs s) ! j) = fu_remaining (fu_pool s ! j)"
  by (induction hs arbitrary: s; simp)+

lemma insert_into_rs_keep [simp]:
  "length (g_store (insert_into_rs c s)) = length (g_store s)"
  "tag (g_store (insert_into_rs c s) ! x) = tag (g_store s ! x)"
  "inst_type (g_store (insert_into_rs c s) ! x) = inst_type (g_store s ! x)"
  "issued (g_store (insert_into_rs c s) ! x) = issued (g_store s ! x)"
  "waiting_bus (g_store (insert_into_rs c s) ! x) = waiting_bus (g_store s ! x)"
  "enqueued_bus (g_store (insert_into_rs c s) ! x) = enqueued_bus (g_store s ! x)"
  "completion_c (g_store (insert_into_rs c s) ! x) = completion_c (g_store s ! x)"
  "fu (g_store (insert_into_rs c s) ! x) = fu (g_store s ! x)"
  "state_c (g_store (insert_into_rs c s) ! x) = state_c (g_store s ! x)"
  "length (fu_pool (insert_into_rs c s)) = length (fu_pool s)"
  "fu_type (fu_pool (insert_into_rs c s) ! j) = fu_type (fu_pool s ! j)"
  "fu_inst (fu_pool (insert_into_rs c s) ! j) = fu_inst (fu_pool s ! j)"
  "fu_remaining (fu_pool (insert_into_rs c s) ! j) = fu_remaining (fu_pool s ! j)"
  by (simp_all add: insert_into_rs_def)

lemma move_one_keep [simp]:
  "length (g_store (move_one c h s)) = length (g_store s)"
  "tag (g_store (move_one c h s) ! x) = tag (g_store s ! x)"
  "inst_type (g_store (move_one c h s) ! x) = inst_type (g_store s ! x)"
  "issued (g_store (move_one c h s) ! x) = issued (g_store s ! x)"
  "waiting_bus (g_store (move_one c h s) ! x) = waiting_bus (g_store s ! x)"
  "enqueued_bus (g_store (move_one c h s) ! x) = enqueued_bus (g_store s ! x)"
  "completion_c (g_store (move_one c h s) ! x) = completion_c (g_store s ! x)"
  "fu (g_store (move_one c h s) ! x) = fu (g_store s ! x)"
  "state_c (g_store (move_one c h s) ! x) = state_c (g_store s ! x)"
  "length (fu_pool (move_one c h s)) = length (fu_pool s)"
  "fu_type (fu_pool (move_one c h s) ! j) = fu_type (fu_pool s ! j)"
  "fu_inst (fu_pool (move_one c h s) ! j) = fu_inst (fu_pool s ! j)"
  "fu_remaining (fu_pool (move_one c h s) ! j) = fu_remaining (fu_pool s ! j)"
  by (simp_all add: move_one_def upd_inst_def upd_fu_def Let_def nth_upd_if split: option.splits)

lemma fold_move_one_keep [simp]:
  "length (g_store (fold (move_one c) hs s)) = length (g_store s)"
  "tag (g_store (fold (move_one c) hs s) ! x) = tag (g_store s ! x)"
  "inst_type (g_store (fold (move_one c) hs s) ! x) = inst_type (g_store s ! x)"
  "issued (g_store (fold (move_one c) hs s) ! x) = issued (g_store s ! x)"
  "waiting_bus (g_store (fold (move_one c) hs s) ! x) = waiting_bus (g_store s ! x)"
  "enqueued_bus (g_store (fold (move_one c) hs s) ! x) = enqueued_bus (g_store s ! x)"
  "completion_c (g_store (fold (move_one c) hs s) ! x) = completion_c (g_store s ! x)"
  "fu (g_store (fold (move_one c) hs s) ! x) = fu (g_store s ! x)"
  "state_c (g_store (fold (move_one c) hs s) ! x) = state_c (g_store s ! x)"
  "length (fu_pool (fold (move_one c) hs s)) = length (fu_pool s)"
  "fu_type (fu_pool (fold (move_one c) hs s) ! j) = fu_type (fu_pool s ! j)"
  "fu_inst (fu_pool (fold (move_one c) hs s) ! j) = fu_inst (fu_pool s ! j)"
  "fu_remaining (fu_pool (fold (move_one c) hs s) ! j) = fu_remaining (fu_pool s ! j)"
  by (induction hs arbitrary: s; simp)+

lemma move_into_dispatch_keep [simp]:
  "length (g_store (move_into_dispatch c s)) = length (g_store s)"
  "tag (g_store (move_into_dispatch c s) ! x) = tag (g_store s ! x)"
  "inst_type (g_store (move_into_dispatch c s) ! x) = inst_type (g_store s ! x)"
  "issued (g_store (move_into_dispatch c s) ! x) = issued (g_store s ! x)"
  "waiting_bus (g_store (move_into_dispatch c s) ! x) = waiting_bus (g_store s ! x)"
  "enqueued_bus (g_store (move_into_dispatch c s) ! x) = enqueued_bus (g_store s ! x)"
  "completion_c (g_store (move_into_dispatch c s) ! x) = completion_c (g_store s ! x)"
  "fu (g_store (move_into_dispatch c s) ! x) = fu (g_store s ! x)"
  "state_c (g_store (move_into_dispatch c s) ! x) = state_c (g_store s ! x)"
  "length (fu_pool (move_into_dispatch c s)) = length (fu_pool s)"
  "fu_type (fu_pool (move_into_dispatch c s) ! j) = fu_type (fu_pool s ! j)"
  "fu_inst (fu_pool (move_into_dispatch c s) ! j) = fu_inst (fu_pool s ! j)"
  "fu_remaining (fu_pool (move_into_dispatch c s) ! j) = fu_remaining (fu_pool s ! j)"
  by (simp_all add: move_into_dispatch_def)

lemma issue_loop_keep [simp]:
  "length (g_store (snd (issue_loop c fn hs res fired s))) = length (g_store s)"
  "tag (g_store (snd (issue_loop c fn hs res fired s)) ! x) = tag (g_store s ! x)"
  "inst_type (g_store (snd (issue_loop c fn hs res fired s)) ! x) = inst_type (g_store s ! x)"
  "waiting_bus (g_store (snd (issue_loop c fn hs res fired s)) ! x) = waiting_bus (g_store s ! x)"
  "enqueued_bus (g_store (snd (issue_loop c fn hs res fired s)) ! x) = enqueued_bus (g_store s ! x)"
  "completion_c (g_store (snd (issue_loop c fn hs res fired s)) ! x) = completion_c (g_store s ! x)"
  "fu (g_store (snd (issue_loop c fn hs res fired s)) ! x) = fu (g_store s ! x)"
  "state_c (g_store (snd (issue_loop c fn hs res fired s)) ! x) = state_c (g_store s ! x)"
  "length (fu_pool (snd (issue_loop c fn hs res fired s))) = length (fu_pool s)"
  "fu_type (fu_pool (snd (issue_loop c fn hs res fired s)) ! j) = fu_type (fu_pool s ! j)"
  "fu_inst (fu_pool (snd (issue_loop c fn hs res fired s)) ! j) = fu_inst (fu_pool s ! j)"
  "fu_remaining (fu_pool (snd (issue_loop c fn hs res fired s)) ! j) = fu_remaining (fu_pool s ! j)"
  by (induction hs arbitrary: res fired s; simp add: Let_def upd_inst_def nth_upd_if)+

lemma issue_ready_keep [simp]:
  "length (g_store (snd (issue_ready c s))) = length (g_store s)"
  "tag (g_store (snd (issue_ready c s)) ! x) = tag (g_store s ! x)"
  "inst_type (g_store (snd (issue_ready c s)) ! x) = inst_type (g_store s ! x)"
  "waiting_bus (g_store (snd (issue_ready c s)) ! x) = waiting_bus (g_store s ! x)"
  "enqueued_bus (g_store (snd (issue_ready c s)) ! x) = enqueued_bus (g_store s ! x)"
  "completion_c (g_store (snd (issue_ready c s)) ! x) = completion_c (g_store s ! x)"
  "fu (g_store (snd (issue_ready c s)) ! x) = fu (g_store s ! x)"
  "state_c (g_store (snd (issue_ready c s)) ! x) = state_c (g_store s ! x)"
  "length (fu_pool (snd (issue_ready c s))) = length (fu_pool s)"
  "fu_type (fu_pool (snd (issue_ready c s)) ! j) = fu_type (fu_pool s ! j)"
  "fu_inst (fu_pool (snd (issue_ready c s)) ! j) = fu_inst (fu_pool s ! j)"
  "fu_remaining (fu_pool (snd (issue_ready c s)) ! j) = fu_remaining (fu_pool s ! j)"
  by (simp_all add: issue_ready_def)

lemma issue_stage_keep [simp]:
  "length (g_store (issue_stage c s)) = length (g_store s)"
  "tag (g_store (issue_stage c s) ! x) = tag (g_store s ! x)"
  "inst_type (g_store (issue_stage c s) ! x) = inst_type (g_store s ! x)"
  "waiting_bus (g_store (issue_stage c s) ! x) = waiting_bus (g_store s ! x)"
  "enqueued_bus (g_store (issue_stage c s) ! x) = enqueued_bus (g_store s ! x)"
  "completion_c (g_store (issue_stage c s) ! x) = completion_c (g_store s ! x)"
  "fu (g_store (issue_stage c s) ! x) = fu (g_store s ! x)"
  "state_c (g_store (issue_stage c s) ! x) = state_c (g_store s ! x)"
  "length (fu_pool (issue_stage c s)) = length (fu_pool s)"
  "fu_type (fu_pool (issue_stage c s) ! j) = fu_type (fu_pool s ! j)"
  "fu_inst (fu_pool (issue_stage c s) ! j) = fu_inst (fu_pool s ! j)"
  "fu_remaining (fu_pool (issue_stage c s) ! j) = fu_remaining (fu_pool s ! j)"
  by (simp_all add: issue_stage_def split_beta)

section \<open>Well-formedness is kept by every stage\<close>

lemmas inv_defs = inv_flow_def inv_tags_def inv_pool_def inv_exec_def inv_links_def inv_held_def
  inv_fu_def inv_bus_def inv_idle_def inv_upd_def inv_src_def inflight_def in_exec_def
  executing_def waiting_def

lemma insert_into_rs_untouched [simp]:
  "inv_tags (insert_into_rs c s) = inv_tags s"
  "inv_pool (insert_into_rs c s) = inv_pool s"
  "inv_links (insert_into_rs c s) = inv_links s"
  "inv_fu n (insert_into_rs c s) = inv_fu n s"
  "inv_bus (insert_into_rs c s) = inv_bus s"
  "inv_idle (insert_into_rs c s) = inv_idle s"
  "inv_upd n (insert_into_rs c s) = inv_upd n s"
  "inv_src tr (insert_into_rs c s) = inv_src tr s"
  by (simp_all add: inv_defs  cong: option.case_cong)

lemma move_into_dispatch_untouched [simp]:
  "inv_tags (move_into_dispatch c s) = inv_tags s"
  "inv_pool (move_into_dispatch c s) = inv_pool s"
  "inv_exec (move_into_dispatch c s) = inv_exec s"
  "inv_links (move_into_dispatch c s) = inv_links s"
  "inv_held (move_into_dispatch c s) = inv_held s"
  "inv_fu n (move_into_dispatch c s) = inv_fu n s"
  "inv_bus (move_into_dispatch c s) = inv_bus s"
  "inv_idle (move_into_dispatch c s) = inv_idle s"
  "inv_upd n (move_into_dispatch c s) = inv_upd n s"
  "inv_src tr (move_into_dispatch c s) = inv_src tr s"
  by (simp_all add: inv_defs  cong: option.case_cong)

lemma sample_disp_q_untouched [simp]:
  "inv_flow (sample_disp_q s) = inv_flow s"
  "inv_tags (sample_disp_q s) = inv_tags s"
  "inv_pool (sample_disp_q s) = inv_pool s"
  "inv_exec (sample_disp_q s) = inv_exec s"
  "inv_links (sample_disp_q s) = inv_links s"
  "inv_held (sample_disp_q s) = inv_held s"
  "inv_fu n (sample_disp_q s) = inv_fu n s"
  "inv_bus (sample_disp_q s) = inv_bus s"
  "inv_idle (sample_disp_q s) = inv_idle s"
  "inv_upd n (sample_disp_q s) = inv_upd n s"
  "inv_src tr (sample_disp_q s) = inv_src tr s"
  by (simp_all add: inv_defs  cong: option.case_cong)

lemma issue_stage_untouched [simp]:
  "inv_flow (issue_stage c s) = inv_flow s"
  "inv_tags (issue_stage c s) = inv_tags s"
  "inv_pool (issue_stage c s) = inv_pool s"
  "inv_links (issue_stage c s) = inv_links s"
  "inv_fu n (issue_stage c s) = inv_fu n s"
  "inv_bus (issue_stage c s) = inv_bus s"
  "inv_upd n (issue_stage c s) = inv_upd n s"
  "inv_src tr (issue_stage c s) = inv_src tr s"
  by (simp_all add: inv_defs  cong: option.case_cong)

lemma dispatch_to_schedule_untouched [simp]:
  "inv_tags (dispatch_to_schedule s) = inv_tags s"
  "inv_pool (dispatch_to_schedule s) = inv_pool s"
  "inv_exec (dispatch_to_schedule s) = inv_exec s"
  "inv_links (dispatch_to_schedule s) = inv_links s"
  "inv_held (dispatch_to_schedule s) = inv_held s"
  "inv_fu n (dispatch_to_schedule s) = inv_fu n s"
  "inv_bus (dispatch_to_schedule s) = inv_bus s"
  "inv_idle (dispatch_to_schedule s) = inv_idle s"
  "inv_upd n (dispatch_to_schedule s) = inv_upd n s"
  "inv_src tr (dispatch_to_schedule s) = inv_src tr s"
  by (simp_all add: inv_defs  cong: option.case_cong)

lemma advance_latches_untouched [simp]:
  "inv_tags (advance_latches s) = inv_tags s"
  "inv_pool (advance_latches s) = inv_pool s"
  "inv_links (advance_latches s) = inv_links s"
  "inv_held (advance_latches s) = inv_held s"
  "inv_fu n (advance_latches s) = inv_fu n s"
  "inv_bus (advance_latches s) = inv_bus s"
  "inv_upd n (advance_latches s) = inv_upd n s"
  "inv_src tr (advance_latches s) = inv_src tr s"
  by (simp_all add: inv_defs advance_latches_def cong: option.case_cong)

lemma retire_state_update_untouched [simp]:
  "inv_tags (retire_state_update s) = inv_tags s"
  "inv_pool (retire_state_update s) = inv_pool s"
  "inv_links (retire_state_update s) = inv_links s"
  "inv_fu n (retire_state_update s) = inv_fu n s"
  "inv_bus (retire_state_update s) = inv_bus s"
  "inv_src tr (retire_state_update s) = inv_src tr s"
  by (simp_all add: inv_defs  cong: option.case_cong)

lemma tick_execute_units_untouched [simp]:
  "inv_flow (tick_execute_units c s) = inv_flow s"
  "inv_tags (tick_execute_units c s) = inv_tags s"
  "inv_pool (tick_execute_units c s) = inv_pool s"
  "inv_exec (tick_execute_units c s) = inv_exec s"
  "inv_links (tick_execute_units c s) = inv_links s"
  "inv_held (tick_execute_units c s) = inv_held s"
  "inv_src tr (tick_execute_units c s) = inv_src tr s"
  by (simp_all add: inv_defs  cong: option.case_cong)

lemma broadcast_results_untouched [simp]:
  "inv_flow (broadcast_results c s) = inv_flow s"
  "inv_tags (broadcast_results c s) = inv_tags s"
  "inv_pool (broadcast_results c s) = inv_pool s"
  "inv_src tr (broadcast_results c s) = inv_src tr s"
  by (simp_all add: inv_defs  cong: option.case_cong)

subsection \<open>Insertion, dispatch, sampling and the latches\<close>

lemma case_option_all:
  "(case x of None \<Rightarrow> True | Some h \<Rightarrow> P h) = (\<forall>h. x = Some h \<longrightarrow> P h)"
  by (cases x) auto

lemma inv_links_iff:
  "inv_links s \<longleftrightarrow>
     (\<forall>k h. k < length (fu_pool s) \<longrightarrow> fu_inst (fu_pool s ! k) = Some h \<longrightarrow>
        h < length (g_store s) \<and> fu (g_store s ! h) = Some k) \<and>
     (\<forall>h k. h < length (g_store s) \<longrightarrow> fu (g_store s ! h) = Some k \<longrightarrow>
        k < length (fu_pool s) \<and> fu_inst (fu_pool s ! k) = Some h)"
  unfolding inv_links_def case_option_all by (simp add: Ball_def)

lemma inv_fu_iff:
  "inv_fu n s \<longleftrightarrow>
     (\<forall>k h. k < length (fu_pool s) \<longrightarrow> fu_inst (fu_pool s ! k) = Some h \<longrightarrow>
        executing s k h \<or> waiting n s k h)"
  unfolding inv_fu_def case_option_all by (simp add: Ball_def)

lemma inv_fu_mono: "inv_fu n s \<Longrightarrow> n \<le> m \<Longrightarrow> inv_fu m s"
  unfolding inv_fu_iff waiting_def by fastforce

lemma rs_fold_insert_one [simp]: "rs (fold (insert_one c) hs s) = rs s @ hs"
  by (induction hs arbitrary: s) (simp_all add: insert_one_def Let_def)

lemma rs_insert_into_rs [simp]: "rs (insert_into_rs c s) = rs s @ latch_ds_cur s"
  by (simp add: insert_into_rs_def)

lemma latch_ds_cur_insert_into_rs [simp]: "latch_ds_cur (insert_into_rs c s) = []"
  by (simp add: insert_into_rs_def)

lemma q_dispatch_fold_move_one [simp]: "q_dispatch (fold (move_one c) hs s) = q_dispatch s @ hs"
  by (induction hs arbitrary: s) (simp_all add: move_one_def Let_def)

lemma q_dispatch_move_into_dispatch [simp]:
  "q_dispatch (move_into_dispatch c s) = q_dispatch s @ latch_fd_cur s"
  by (simp add: move_into_dispatch_def)

lemma latch_fd_cur_move_into_dispatch [simp]: "latch_fd_cur (move_into_dispatch c s) = []"
  by (simp add: move_into_dispatch_def)

lemma inv_flow_insert_into_rs: "inv_flow s \<Longrightarrow> inv_flow (insert_into_rs c s)"
  unfolding inv_flow_def inflight_def by auto

lemma inv_exec_insert_into_rs: "inv_exec s \<Longrightarrow> inv_exec (insert_into_rs c s)"
  unfolding inv_exec_def in_exec_def by auto

lemma inv_held_insert_into_rs: "inv_held s \<Longrightarrow> inv_held (insert_into_rs c s)"
  unfolding inv_held_def by auto

lemma wf_insert_into_rs: "wf tr n s \<Longrightarrow> wf tr n (insert_into_rs c s)"
  unfolding wf_def
  by (simp add: inv_flow_insert_into_rs inv_exec_insert_into_rs inv_held_insert_into_rs)

lemma inv_flow_move_into_dispatch: "inv_flow s \<Longrightarrow> inv_flow (move_into_dispatch c s)"
  unfolding inv_flow_def inflight_def by auto

lemma wf_move_into_dispatch: "wf tr n s \<Longrightarrow> wf tr n (move_into_dispatch c s)"
  unfolding wf_def by (simp add: inv_flow_move_into_dispatch)

lemma wf_sample_disp_q: "wf tr n s \<Longrightarrow> wf tr n (sample_disp_q s)"
  unfolding wf_def by simp

lemma dispatch_to_schedule_concat:
  "latch_ds_nxt (dispatch_to_schedule s) @ q_dispatch (dispatch_to_schedule s) =
     latch_ds_nxt s @ q_dispatch s"
proof (induction s rule: dispatch_to_schedule.induct)
  case (1 s)
  show ?case
  proof (cases "q_dispatch s")
    case Nil
    then show ?thesis by (subst (1 2) dispatch_to_schedule.simps) simp
  next
    case (Cons h q)
    show ?thesis
    proof (cases "gRS_cap s \<le> length (rs s) + length (latch_ds_nxt s)")
      case True
      then show ?thesis using Cons by (subst (1 2) dispatch_to_schedule.simps) simp
    next
      case False
      from 1[OF Cons] False Cons show ?thesis
        by (subst (1 2) dispatch_to_schedule.simps) simp
    qed
  qed
qed

lemma inflight_dispatch_to_schedule [simp]:
  "inflight (dispatch_to_schedule s) = inflight s"
  using dispatch_to_schedule_concat[of s] by (simp add: inflight_def)

lemma inv_flow_dispatch_to_schedule [simp]:
  "inv_flow (dispatch_to_schedule s) = inv_flow s"
  by (simp add: inv_flow_def)

lemma wf_dispatch_to_schedule: "wf tr n s \<Longrightarrow> wf tr n (dispatch_to_schedule s)"
  unfolding wf_def by simp


lemma wf_advance_latches:
  assumes "wf tr n s" "latch_fd_cur s = []" "latch_ds_cur s = []" "latch_se_cur s = []"
  shows "wf tr n (advance_latches s)"
proof -
  have f: "inv_flow s" "inv_exec s" "inv_idle s" using assms(1) by (simp_all add: wf_def)
  have "inv_flow (advance_latches s)"
    using f(1) assms(2-) unfolding inv_flow_def inflight_def advance_latches_def by auto
  moreover have "inv_exec (advance_latches s)"
    using f(2) assms(2-) unfolding inv_exec_def in_exec_def advance_latches_def by simp
  moreover have "inv_idle (advance_latches s)"
    using f(3) assms(2-) unfolding inv_idle_def advance_latches_def by simp
  ultimately show ?thesis using assms(1) unfolding wf_def by simp
qed


subsection \<open>Fetch, retirement and issue\<close>

lemma fu_type_from_opcode_bound: "fu_type_from_opcode op < kTypes"
  by (auto simp add: fu_type_from_opcode_def kTypes_def nat_less_iff)

lemma wf_fetch_one:
  assumes "wf tr n s" "source s = r # xs"
    and fetch_one_def: "t = s\<lparr>source := xs, g_next_tag := g_next_tag s + 1,
       latch_fd_nxt := latch_fd_nxt s @ [length (g_store s)],
       g_store := g_store s @ [new_inst r (g_next_tag s) c]\<rparr>"
  shows "wf tr n t"
proof -
  let ?L = "length (g_store s)"
  have w: "inv_flow s" "inv_tags s" "inv_pool s" "inv_exec s" "inv_links s" "inv_held s"
    "inv_fu n s" "inv_bus s" "inv_idle s" "inv_upd n s" "inv_src tr s"
    using assms(1) by (simp_all add: wf_def)
  have old: "\<And>h. h < ?L \<Longrightarrow> g_store t ! h = g_store s ! h"
    by (simp add: fetch_one_def nth_append)
  have new: "g_store t ! ?L = new_inst r (g_next_tag s) c" by (simp add: fetch_one_def)
  have len: "length (g_store t) = Suc ?L" by (simp add: fetch_one_def)
  have fr: "fu_pool t = fu_pool s" "rs t = rs s" "bus_wait t = bus_wait s"
    "st_update t = st_update s" "latch_se_nxt t = latch_se_nxt s"
    "latch_se_cur t = latch_se_cur s" "in_exec t = in_exec s"
    "set (inflight t) = insert ?L (set (inflight s))"
    "distinct (inflight t) = (?L \<notin> set (inflight s) \<and> distinct (inflight s))"
    "length (inflight t) = Suc (length (inflight s))" "g_retired t = g_retired s"
    by (auto simp add: fetch_one_def in_exec_def inflight_def)
  have valid: "\<And>h. h \<in> set (inflight s) \<Longrightarrow> h < ?L" using w(1) by (simp add: inv_flow_def)
  have rsv: "\<And>h. h \<in> set (rs s) \<Longrightarrow> h < ?L" using valid by (simp add: inflight_def)
  have 1: "inv_flow t"
    using w(1) valid unfolding inv_flow_def fr len by (auto simp add: less_Suc_eq)
  have 2: "inv_tags t"
    using w(2) old new unfolding inv_tags_def len
    by (auto simp add: fetch_one_def less_Suc_eq new_inst_def fu_type_from_opcode_bound)
  have 3: "inv_pool t" using w(3) unfolding inv_pool_def fr by simp
  have 4: "inv_exec t"
    using w(4) rsv old unfolding inv_exec_def fr by auto
  have newf: "fu (g_store t ! ?L) = None" "\<not> waiting_bus (g_store t ! ?L)"
    "\<not> enqueued_bus (g_store t ! ?L)" "completion_c (g_store t ! ?L) = 0"
    "\<not> issued (g_store t ! ?L)"
    unfolding new by (simp_all add: new_inst_def)
  have 5: "inv_links t"
    unfolding inv_links_iff fr len
  proof (intro conjI allI impI)
    fix k h assume k: "k < length (fu_pool s)" "fu_inst (fu_pool s ! k) = Some h"
    then have h: "h < ?L" "fu (g_store s ! h) = Some k" using w(5) unfolding inv_links_iff by blast+
    show "h < Suc ?L" using h(1) by simp
    show "fu (g_store t ! h) = Some k" using h old by simp
  next
    fix h k assume h: "h < Suc ?L" "fu (g_store t ! h) = Some k"
    have hl: "h < ?L" using h newf(1) by (cases "h = ?L") auto
    then have "fu (g_store s ! h) = Some k" using h(2) old by simp
    then have r: "k < length (fu_pool s) \<and> fu_inst (fu_pool s ! k) = Some h"
      using w(5) hl unfolding inv_links_iff by blast
    show "k < length (fu_pool s)" using r by simp
    show "fu_inst (fu_pool s ! k) = Some h" using r by simp
  qed
  have 6: "inv_held t"
    unfolding inv_held_def fr len
  proof (intro ballI impI)
    fix h assume h: "h \<in> set [0..<Suc ?L]" "fu (g_store t ! h) \<noteq> None"
    have hl: "h < ?L" using h newf(1) by (cases "h = ?L") auto
    then have "fu (g_store s ! h) \<noteq> None" using h(2) old by simp
    then have "h \<in> set (rs s) \<and> issued (g_store s ! h)"
      using w(6) hl unfolding inv_held_def by simp
    then show "h \<in> set (rs s) \<and> issued (g_store t ! h)" using old hl by simp
  qed
  have hv: "\<And>k h. k < length (fu_pool s) \<Longrightarrow> fu_inst (fu_pool s ! k) = Some h \<Longrightarrow> h < ?L"
    using w(5) unfolding inv_links_iff by blast
  have 7: "inv_fu n t"
    unfolding inv_fu_iff fr
  proof (intro allI impI)
    fix k h assume k: "k < length (fu_pool s)" "fu_inst (fu_pool s ! k) = Some h"
    then have "executing s k h \<or> waiting n s k h" using w(7) unfolding inv_fu_iff by blast
    moreover have "g_store t ! h = g_store s ! h" using old hv[OF k] by simp
    ultimately show "executing t k h \<or> waiting n t k h"
      unfolding executing_def waiting_def fr by simp
  qed
  have 8: "inv_bus t"
    using w(8) old unfolding inv_bus_def fr len by (auto simp add: less_Suc_eq)
  have 9: "inv_idle t"
    unfolding inv_idle_def fr len
  proof (intro ballI)
    fix h assume h: "h \<in> set [0..<Suc ?L]"
    show "(fu (g_store t ! h) = None \<longrightarrow>
            \<not> waiting_bus (g_store t ! h) \<and> \<not> enqueued_bus (g_store t ! h)) \<and>
          (\<not> issued (g_store t ! h) \<or> h \<in> set (latch_se_nxt s @ latch_se_cur s) \<longrightarrow>
            completion_c (g_store t ! h) = 0)"
    proof (cases "h = ?L")
      case True
      then show ?thesis using newf by simp
    next
      case False
      then have hl: "h < ?L" using h by simp
      then have "(fu (g_store s ! h) = None \<longrightarrow>
            \<not> waiting_bus (g_store s ! h) \<and> \<not> enqueued_bus (g_store s ! h)) \<and>
          (\<not> issued (g_store s ! h) \<or> h \<in> set (latch_se_nxt s @ latch_se_cur s) \<longrightarrow>
            completion_c (g_store s ! h) = 0)"
        using w(9) unfolding inv_idle_def by simp
      then show ?thesis using old[OF hl] by simp
    qed
  qed
  have sv: "\<And>h. h \<in> set (st_update s) \<Longrightarrow> h < ?L"
    using w(4) rsv unfolding inv_exec_def in_exec_def by auto
  have 10: "inv_upd n t"
    using w(10) old sv unfolding inv_upd_def fr by auto
  have 11: "inv_src tr t"
    using w(11) assms(2) unfolding inv_src_def by (auto simp add: fetch_one_def)
  show ?thesis unfolding wf_def using 1 2 3 4 5 6 7 8 9 10 11 by simp
qed
lemma trace_done_untouched [simp]:
  "inv_flow (s\<lparr>g_trace_done := b\<rparr>) = inv_flow s"
  "inv_tags (s\<lparr>g_trace_done := b\<rparr>) = inv_tags s"
  "inv_pool (s\<lparr>g_trace_done := b\<rparr>) = inv_pool s"
  "inv_exec (s\<lparr>g_trace_done := b\<rparr>) = inv_exec s"
  "inv_links (s\<lparr>g_trace_done := b\<rparr>) = inv_links s"
  "inv_held (s\<lparr>g_trace_done := b\<rparr>) = inv_held s"
  "inv_fu n (s\<lparr>g_trace_done := b\<rparr>) = inv_fu n s"
  "inv_bus (s\<lparr>g_trace_done := b\<rparr>) = inv_bus s"
  "inv_idle (s\<lparr>g_trace_done := b\<rparr>) = inv_idle s"
  "inv_upd n (s\<lparr>g_trace_done := b\<rparr>) = inv_upd n s"
  by (simp_all add: inv_defs cong: option.case_cong)

lemma wf_trace_done:
  assumes "wf tr n s" "source s = []"
  shows "wf tr n (s\<lparr>g_trace_done := True\<rparr>)"
proof -
  have "inv_src tr (s\<lparr>g_trace_done := True\<rparr>)"
    using assms unfolding wf_def inv_src_def by simp
  then show ?thesis using assms(1) unfolding wf_def by simp
qed

lemma wf_fetch_loop: "wf tr n s \<Longrightarrow> wf tr n (fetch_loop c k s)"
proof (induction k arbitrary: s)
  case 0
  then show ?case by simp
next
  case (Suc k)
  show ?case
  proof (cases "source s")
    case Nil
    have "s\<lparr>g_trace_done := True\<rparr> = fetch_loop c (Suc k) s"
      using Nil by (simp add: read_instruction_def)
    then show ?thesis using wf_trace_done[OF Suc.prems Nil] by simp
  next
    case (Cons r xs)
    let ?t = "s\<lparr>source := xs, g_next_tag := g_next_tag s + 1,
       latch_fd_nxt := latch_fd_nxt s @ [length (g_store s)],
       g_store := g_store s @ [new_inst r (g_next_tag s) c]\<rparr>"
    have "wf tr n ?t" by (rule wf_fetch_one[OF Suc.prems Cons]) simp
    then have "wf tr n (fetch_loop c k ?t)" by (rule Suc.IH)
    moreover have "fetch_loop c (Suc k) s = fetch_loop c k ?t"
      using Cons by (simp add: read_instruction_def)
    ultimately show ?thesis by simp
  qed
qed

lemma wf_fetch_instructions: "wf tr n s \<Longrightarrow> wf tr n (fetch_instructions c s)"
  by (simp add: fetch_instructions_def wf_fetch_loop)
lemma fold_remove1_props:
  "distinct ys \<Longrightarrow> distinct xs \<Longrightarrow> set xs \<subseteq> set ys \<Longrightarrow>
     distinct (fold remove1 xs ys) \<and> set (fold remove1 xs ys) = set ys - set xs \<and>
     length (fold remove1 xs ys) + length xs = length ys"
proof (induction xs arbitrary: ys)
  case Nil
  then show ?case by simp
next
  case (Cons x xs)
  have a: "distinct (remove1 x ys)" "distinct xs" "set xs \<subseteq> set (remove1 x ys)"
    using Cons.prems by auto
  have l: "length (remove1 x ys) + 1 = length ys"
    using Cons.prems(3) by (simp add: length_remove1) (cases ys, auto)
  from Cons.IH[OF a] l Cons.prems(1) show ?case by auto
qed

lemma rs_fold_retire_one: "rs (fold retire_one xs s) = fold remove1 xs (rs s)"
  by (induction xs arbitrary: s) (simp_all add: retire_one_def remove_from_rs_def Let_def)

lemma g_retired_fold_retire_one: "g_retired (fold retire_one xs s) = g_retired s + length xs"
  by (induction xs arbitrary: s) (simp_all add: retire_one_def remove_from_rs_def Let_def)

lemma issued_retire_one:
  "issued (g_store (retire_one h s) ! x) =
     (issued (g_store s ! x) \<or> (x = h \<and> x < length (g_store s)))"
  by (auto simp add: retire_one_def remove_from_rs_def upd_inst_def Let_def nth_upd_if)

lemma issued_fold_retire_one:
  "issued (g_store (fold retire_one xs s) ! x) =
     (issued (g_store s ! x) \<or> (x \<in> set xs \<and> x < length (g_store s)))"
  by (induction xs arbitrary: s) (auto simp add: issued_retire_one)

lemma retire_state_update_eq:
  "retire_state_update s = (fold retire_one (st_update s) s)\<lparr>st_update := []\<rparr>"
  by (simp add: retire_state_update_def)

lemma rs_retire_state_update:
  "rs (retire_state_update s) = fold remove1 (st_update s) (rs s)"
  by (simp add: retire_state_update_eq rs_fold_retire_one)

lemma issued_retire_state_update:
  "issued (g_store (retire_state_update s) ! x) =
     (issued (g_store s ! x) \<or> (x \<in> set (st_update s) \<and> x < length (g_store s)))"
  by (simp add: retire_state_update_eq issued_fold_retire_one)

lemma g_retired_retire_state_update:
  "g_retired (retire_state_update s) = g_retired s + length (st_update s)"
  by (simp add: retire_state_update_eq g_retired_fold_retire_one)

lemma st_update_retire_state_update [simp]: "st_update (retire_state_update s) = []"
  by (simp add: retire_state_update_eq)

lemma wf_retire_state_update:
  assumes "wf tr n s"
  shows "wf tr (Suc n) (retire_state_update s)"
proof -
  let ?t = "retire_state_update s"
  have w: "inv_flow s" "inv_tags s" "inv_pool s" "inv_exec s" "inv_links s" "inv_held s"
    "inv_fu n s" "inv_bus s" "inv_idle s" "inv_upd n s" "inv_src tr s"
    using assms(1) by (simp_all add: wf_def)
  have d: "distinct (rs s)" "distinct (st_update s)" "set (st_update s) \<subseteq> set (rs s)"
    using w(1,4) unfolding inv_flow_def inflight_def inv_exec_def in_exec_def by auto
  note p = fold_remove1_props[OF d]
  have rs': "distinct (rs ?t)" "set (rs ?t) = set (rs s) - set (st_update s)"
    "length (rs ?t) + length (st_update s) = length (rs s)"
    using p by (simp_all add: rs_retire_state_update)
  have 1: "inv_flow ?t"
    using w(1) rs' unfolding inv_flow_def inflight_def
    by (auto simp add: g_retired_retire_state_update)
  have 4: "inv_exec ?t"
    using w(4) rs'(2) unfolding inv_exec_def in_exec_def
    by (auto simp add: issued_retire_state_update)
  have 6: "inv_held ?t"
    unfolding inv_held_def
  proof (intro ballI impI)
    fix h assume h: "h \<in> set [0..<length (g_store ?t)]" "fu (g_store ?t ! h) \<noteq> None"
    then have a: "h \<in> set (rs s)" "issued (g_store s ! h)"
      using w(6) unfolding inv_held_def by auto
    have "h \<notin> set (st_update s)"
      using w(4) h(2) unfolding inv_exec_def in_exec_def by auto
    then show "h \<in> set (rs ?t) \<and> issued (g_store ?t ! h)"
      using a rs'(2) by (simp add: issued_retire_state_update)
  qed
  have 7: "inv_fu (Suc n) ?t" using inv_fu_mono[OF w(7), of "Suc n"] by simp
  have 9: "inv_idle ?t"
    using w(9) unfolding inv_idle_def by (auto simp add: issued_retire_state_update)
  have 10: "inv_upd (Suc n) ?t" by (simp add: inv_upd_def)
  show ?thesis unfolding wf_def using w 1 4 6 7 9 10 by simp
qed
lemma of_type_append [simp]: "of_type s t (xs @ ys) = of_type s t xs + of_type s t ys"
  by (simp add: of_type_def)

lemma issue_one_inv:
  assumes "inv_exec s" "inv_idle s" "inv_held s" "inv_tags s"
    and h: "h \<in> set (rs s)" "h < length (g_store s)" "\<not> issued (g_store s ! h)"
    and t: "t = (upd_inst h (\<lambda>i. i\<lparr>issued := True\<rparr>) s)\<lparr>latch_se_nxt := latch_se_nxt s @ [h]\<rparr>"
  shows "inv_exec t \<and> inv_idle t \<and> inv_held t \<and> inv_tags t \<and> rs t = rs s \<and>
         length (g_store t) = length (g_store s) \<and>
         (\<forall>x. inst_type (g_store t ! x) = inst_type (g_store s ! x)) \<and>
         latch_se_nxt t = latch_se_nxt s @ [h]"
proof -
  have st: "length (g_store t) = length (g_store s)"
    "\<And>x. issued (g_store t ! x) = (issued (g_store s ! x) \<or> x = h)"
    "\<And>x. fu (g_store t ! x) = fu (g_store s ! x)"
    "\<And>x. waiting_bus (g_store t ! x) = waiting_bus (g_store s ! x)"
    "\<And>x. enqueued_bus (g_store t ! x) = enqueued_bus (g_store s ! x)"
    "\<And>x. completion_c (g_store t ! x) = completion_c (g_store s ! x)"
    "\<And>x. tag (g_store t ! x) = tag (g_store s ! x)"
    "\<And>x. inst_type (g_store t ! x) = inst_type (g_store s ! x)"
    using h(2) by (auto simp add: t upd_inst_def nth_upd_if)
  have fr: "rs t = rs s" "latch_se_nxt t = latch_se_nxt s @ [h]" "latch_se_cur t = latch_se_cur s"
    "st_update t = st_update s" "g_next_tag t = g_next_tag s"
    by (simp_all add: t)
  have nin: "h \<notin> set (in_exec s)" using assms(1) h(3) unfolding inv_exec_def by auto
  have fuh: "fu (g_store s ! h) = None"
    using assms(3) h(2,3) unfolding inv_held_def by auto
  have c0: "completion_c (g_store s ! h) = 0"
    using assms(2) h(2,3) unfolding inv_idle_def by auto
  have 1: "inv_exec t"
    using assms(1) nin h(1) fuh unfolding inv_exec_def in_exec_def fr st by auto
  have 2: "inv_idle t"
    using assms(2) c0 unfolding inv_idle_def fr st by auto
  have 3: "inv_held t" using assms(3) unfolding inv_held_def fr st by auto
  have 4: "inv_tags t" using assms(4) unfolding inv_tags_def fr st by simp
  show ?thesis using 1 2 3 4 fr st by simp
qed

lemma issue_loop_inv:
  assumes "inv_exec s" "inv_idle s" "inv_held s" "inv_tags s"
    and "\<forall>h \<in> set hs. h \<in> set (rs s) \<and> h < length (g_store s)"
    and "length res = 3"
    and "\<forall>t<3. res ! t = int (of_type s t (latch_se_nxt s)) \<and> res ! t \<le> fn ! t"
  shows "inv_exec (snd (issue_loop c fn hs res fired s)) \<and>
         inv_idle (snd (issue_loop c fn hs res fired s)) \<and>
         inv_held (snd (issue_loop c fn hs res fired s)) \<and>
         (\<forall>t<3. int (of_type (snd (issue_loop c fn hs res fired s)) t
                    (latch_se_nxt (snd (issue_loop c fn hs res fired s)))) \<le> fn ! t)"
  using assms
proof (induction hs arbitrary: res fired s)
  case Nil
  have "\<forall>t<3. int (of_type s t (latch_se_nxt s)) \<le> fn ! t"
    using Nil.prems(7) by (metis (no_types))
  then show ?case using Nil.prems(1-3) by simp
next
  case (Cons h hs)
  let ?i = "g_store s ! h"
  have rest: "\<forall>h \<in> set hs. h \<in> set (rs s) \<and> h < length (g_store s)" using Cons.prems(5) by simp
  show ?case
  proof (cases "issued ?i \<or> c < sched_ready_c ?i \<or> \<not> (src_ready0 ?i \<and> src_ready1 ?i) \<or>
                fn ! inst_type ?i - res ! inst_type ?i \<le> 0")
    case True
    then have "issue_loop c fn (h # hs) res fired s = issue_loop c fn hs res fired s"
      by (auto simp add: Let_def)
    then show ?thesis
      using Cons.IH[OF Cons.prems(1-4) rest Cons.prems(6,7)] by simp
  next
    case False
    let ?ty = "inst_type ?i"
    let ?t = "(upd_inst h (\<lambda>i. i\<lparr>issued := True\<rparr>) s)\<lparr>latch_se_nxt := latch_se_nxt s @ [h]\<rparr>"
    let ?res = "res[?ty := res ! ?ty + 1]"
    have eq: "issue_loop c fn (h # hs) res fired s = issue_loop c fn hs ?res (fired + 1) ?t"
      using False by (simp add: Let_def)
    have h: "h \<in> set (rs s)" "h < length (g_store s)" "\<not> issued ?i"
      using Cons.prems(5) False by auto
    note one = issue_one_inv[OF Cons.prems(1-4) h refl]
    have ty: "?ty < 3" using Cons.prems(4) h(2) unfolding inv_tags_def by (simp add: kTypes_def)
    have rest': "\<forall>h \<in> set hs. h \<in> set (rs ?t) \<and> h < length (g_store ?t)"
      using rest one by simp
    have len: "length ?res = 3" using Cons.prems(6) by simp
    have oft: "\<And>t xs. of_type ?t t xs = of_type s t xs"
      using one unfolding of_type_def by simp
    have cnt: "\<forall>t<3. ?res ! t = int (of_type ?t t (latch_se_nxt ?t)) \<and> ?res ! t \<le> fn ! t"
    proof (intro allI impI)
      fix t :: nat assume t: "t < 3"
      have a: "res ! t = int (of_type s t (latch_se_nxt s))" "res ! t \<le> fn ! t"
        using Cons.prems(7) t by auto
      have b: "of_type ?t t (latch_se_nxt ?t) =
          of_type s t (latch_se_nxt s) + (if ?ty = t then 1 else 0)"
        unfolding oft by (simp add: of_type_def)
      have c: "?res ! t = res ! t + (if ?ty = t then 1 else 0)"
        using t Cons.prems(6) by (simp add: nth_list_update)
      have d: "?ty = t \<Longrightarrow> res ! t + 1 \<le> fn ! t" using False by auto
      show "?res ! t = int (of_type ?t t (latch_se_nxt ?t)) \<and> ?res ! t \<le> fn ! t"
        using a b c d by auto
    qed
    have "inv_exec ?t" "inv_idle ?t" "inv_held ?t" "inv_tags ?t" using one by simp_all
    from Cons.IH[OF this rest' len cnt] show ?thesis unfolding eq by simp
  qed
qed
lemma projected_nonneg: "t < 3 \<Longrightarrow> 0 \<le> projected_free_fus c s ! t"
  using projected_free_fus_reference[of t c s]
  by (simp add: kTypes_def lookahead_reference_def)

lemma issued_total_untouched [simp]:
  "inv_exec (s\<lparr>g_issued_total := v\<rparr>) = inv_exec s"
  "inv_idle (s\<lparr>g_issued_total := v\<rparr>) = inv_idle s"
  "inv_held (s\<lparr>g_issued_total := v\<rparr>) = inv_held s"
  "of_type (s\<lparr>g_issued_total := v\<rparr>) t xs = of_type s t xs"
  by (simp_all add: inv_defs of_type_def)

lemma issue_stage_eq:
  "issue_stage c s = (snd (issue_ready c s))\<lparr>g_issued_total :=
      g_issued_total (snd (issue_ready c s)) + fst (issue_ready c s)\<rparr>"
  by (simp add: issue_stage_def split_beta)

lemma issue_ready_inv:
  assumes "wf tr n s" "latch_se_nxt s = []"
  shows "inv_exec (snd (issue_ready c s)) \<and> inv_idle (snd (issue_ready c s)) \<and>
         inv_held (snd (issue_ready c s)) \<and>
         (\<forall>t<3. int (of_type (snd (issue_ready c s)) t (latch_se_nxt (snd (issue_ready c s))))
            \<le> projected_free_fus c s ! t)"
proof (cases "rs s = []")
  case True
  then show ?thesis using assms projected_nonneg by (simp add: issue_ready_def wf_def of_type_def)
next
  case False
  have w: "inv_flow s" "inv_exec s" "inv_idle s" "inv_held s" "inv_tags s"
    using assms(1) by (simp_all add: wf_def)
  have v: "\<forall>h \<in> set (sort_by (tag_less (g_store s)) (rs s)). h \<in> set (rs s) \<and> h < length (g_store s)"
    using w(1) unfolding inv_flow_def inflight_def by simp
  have r: "\<forall>t<3. [0, 0, 0] ! t = int (of_type s t (latch_se_nxt s)) \<and>
      [0, 0, 0] ! t \<le> projected_free_fus c s ! t"
  proof (intro allI impI)
    fix t :: nat assume t: "t < 3"
    have "[0, 0, 0::int] ! t = 0" using t by (cases t) (auto simp add: nth_Cons split: nat.splits)
    then show "[0, 0, 0] ! t = int (of_type s t (latch_se_nxt s)) \<and>
      [0, 0, 0] ! t \<le> projected_free_fus c s ! t"
      using projected_nonneg[OF t, of c s] assms(2) by (simp add: of_type_def)
  qed
  have "length [0, 0, 0::int] = 3" by simp
  from issue_loop_inv[OF w(2,3,4,5) v this r, of c 0] False
  show ?thesis by (simp add: issue_ready_def)
qed

lemma wf_issue_stage:
  assumes "wf tr n s" "latch_se_nxt s = []"
  shows "wf tr n (issue_stage c s)"
    and "\<forall>t<3. int (of_type (issue_stage c s) t (latch_se_nxt (issue_stage c s)))
            \<le> projected_free_fus c s ! t"
proof -
  note i = issue_ready_inv[OF assms, of c]
  have e: "inv_exec (issue_stage c s)" "inv_idle (issue_stage c s)" "inv_held (issue_stage c s)"
    using i unfolding issue_stage_eq by simp_all
  show "wf tr n (issue_stage c s)" using assms(1) e unfolding wf_def by simp
  show "\<forall>t<3. int (of_type (issue_stage c s) t (latch_se_nxt (issue_stage c s)))
            \<le> projected_free_fus c s ! t"
    using i unfolding issue_stage_eq by simp
qed

subsection \<open>The execute tick\<close>

lemma fold_upt_induct:
  assumes "P 0 s" and "\<And>k x. k < n \<Longrightarrow> P k x \<Longrightarrow> P (Suc k) (f k x)"
  shows "P n (fold f [0..<n] s)"
  using assms
proof (induction n)
  case 0
  then show ?case by simp
next
  case (Suc n)
  have "P n (fold f [0..<n] s)" using Suc.IH[OF Suc.prems(1)] Suc.prems(2) by simp
  then show ?case using Suc.prems(2)[of n "fold f [0..<n] s"] by simp
qed

lemma tick_fu_idle: "fu_inst (fu_pool s ! k) = None \<Longrightarrow> tick_fu n k s = s"
  by (simp add: tick_fu_def)

lemma tick_fu_waiting:
  "fu_inst (fu_pool s ! k) = Some h \<Longrightarrow> waiting m s k h \<Longrightarrow> tick_fu n k s = s"
  by (simp add: tick_fu_def waiting_def)

lemma tick_fu_executing:
  assumes "fu_inst (fu_pool s ! k) = Some h" "executing s k h" "k < length (fu_pool s)"
    "h < length (g_store s)"
  shows "tick_fu n k s =
     s\<lparr>fu_pool := (fu_pool s)[k := (fu_pool s ! k)\<lparr>fu_remaining := 0\<rparr>],
       bus_wait := bus_wait s @ [h],
       g_store := (g_store s)[h := (g_store s ! h)\<lparr>completion_c := n, waiting_bus := True,
                                                    enqueued_bus := True\<rparr>]\<rparr>"
  using assms unfolding executing_def
  by (simp add: tick_fu_def upd_fu_def upd_inst_def Let_def)
lemma tick_step_inv:
  assumes q: "inv_links s" "inv_held s" "inv_exec s" "inv_fu n s" "inv_bus s" "inv_idle s"
      "inv_upd n s"
    and n: "1 \<le> n"
    and k: "k < length (fu_pool s)" "fu_inst (fu_pool s ! k) = Some h" "executing s k h"
    and t: "t = s\<lparr>fu_pool := (fu_pool s)[k := (fu_pool s ! k)\<lparr>fu_remaining := 0\<rparr>],
       bus_wait := bus_wait s @ [h],
       g_store := (g_store s)[h := (g_store s ! h)\<lparr>completion_c := n, waiting_bus := True,
                                                    enqueued_bus := True\<rparr>]\<rparr>"
  shows "inv_links t \<and> inv_held t \<and> inv_exec t \<and> inv_fu n t \<and> inv_bus t \<and> inv_idle t \<and>
         inv_upd n t \<and> waiting n t k h \<and> completion_c (g_store t ! h) = n \<and>
         (\<forall>j x. j < length (fu_pool s) \<longrightarrow> j \<noteq> k \<longrightarrow> fu_inst (fu_pool s ! j) = Some x \<longrightarrow>
            (waiting n s j x \<longrightarrow> waiting n t j x) \<and>
            waiting_bus (g_store t ! x) = waiting_bus (g_store s ! x) \<and>
            completion_c (g_store t ! x) = completion_c (g_store s ! x))"
proof -
  have hv: "h < length (g_store s)" "fu (g_store s ! h) = Some k"
    using q(1) k(1,2) unfolding inv_links_iff by blast+
  have uniq: "\<And>j x. j < length (fu_pool s) \<Longrightarrow> fu_inst (fu_pool s ! j) = Some x \<Longrightarrow>
      (x = h) = (j = k)"
    using q(1) k(1,2) hv unfolding inv_links_iff by (metis option.inject)
  have P: "length (fu_pool t) = length (fu_pool s)"
    "\<And>j. fu_inst (fu_pool t ! j) = fu_inst (fu_pool s ! j)"
    "\<And>j. fu_remaining (fu_pool t ! j) = (if j = k then 0 else fu_remaining (fu_pool s ! j))"
    using k(1) by (auto simp add: t nth_upd_if)
  have S: "length (g_store t) = length (g_store s)"
    "\<And>x. fu (g_store t ! x) = fu (g_store s ! x)"
    "\<And>x. issued (g_store t ! x) = issued (g_store s ! x)"
    "\<And>x. state_c (g_store t ! x) = state_c (g_store s ! x)"
    "\<And>x. waiting_bus (g_store t ! x) = (x = h \<or> waiting_bus (g_store s ! x))"
    "\<And>x. enqueued_bus (g_store t ! x) = (x = h \<or> enqueued_bus (g_store s ! x))"
    "\<And>x. completion_c (g_store t ! x) = (if x = h then n else completion_c (g_store s ! x))"
    using hv(1) by (auto simp add: t nth_upd_if)
  have L: "rs t = rs s" "st_update t = st_update s" "latch_se_nxt t = latch_se_nxt s"
    "latch_se_cur t = latch_se_cur s" "in_exec t = in_exec s"
    "bus_wait t = bus_wait s @ [h]"
    by (simp_all add: t in_exec_def)
  have ex: "h \<notin> set (bus_wait s)" using k(3) unfolding executing_def by simp
  have hin: "h \<notin> set (in_exec s)" using q(3) hv(2) unfolding inv_exec_def by auto
  have hiss: "issued (g_store s ! h)" using q(2) hv unfolding inv_held_def by auto
  have "inv_links t = inv_links s" unfolding inv_links_iff P S ..
  then have 1: "inv_links t" using q(1) by blast
  have "inv_held t = inv_held s" unfolding inv_held_def S L ..
  then have 2: "inv_held t" using q(2) by blast
  have "inv_exec t = inv_exec s" unfolding inv_exec_def S L ..
  then have 3: "inv_exec t" using q(3) by blast
  have w: "waiting n t k h"
    using n unfolding waiting_def P S L by simp
  have 4: "inv_fu n t"
    unfolding inv_fu_iff P
  proof (intro allI impI)
    fix j x assume j: "j < length (fu_pool s)" "fu_inst (fu_pool s ! j) = Some x"
    show "executing t j x \<or> waiting n t j x"
    proof (cases "j = k")
      case True
      then have "x = h" using j k(2) by simp
      then show ?thesis using w True by simp
    next
      case False
      then have xh: "x \<noteq> h" using uniq[OF j] by simp
      have "executing s j x \<or> waiting n s j x" using q(4) j unfolding inv_fu_iff by blast
      then show ?thesis using False xh unfolding executing_def waiting_def P S L by simp
    qed
  qed
  have 5: "inv_bus t"
    using q(5) ex hv unfolding inv_bus_def S L by auto
  have 6: "inv_idle t"
    unfolding inv_idle_def S L
  proof (intro ballI)
    fix x assume x: "x \<in> set [0..<length (g_store s)]"
    have o: "(fu (g_store s ! x) = None \<longrightarrow>
            \<not> waiting_bus (g_store s ! x) \<and> \<not> enqueued_bus (g_store s ! x)) \<and>
          (\<not> issued (g_store s ! x) \<or> x \<in> set (latch_se_nxt s @ latch_se_cur s) \<longrightarrow>
            completion_c (g_store s ! x) = 0)"
      using q(6) x unfolding inv_idle_def by blast
    show "(fu (g_store s ! x) = None \<longrightarrow>
            \<not> (x = h \<or> waiting_bus (g_store s ! x)) \<and>
            \<not> (x = h \<or> enqueued_bus (g_store s ! x))) \<and>
          (\<not> issued (g_store s ! x) \<or> x \<in> set (latch_se_nxt s @ latch_se_cur s) \<longrightarrow>
            (if x = h then n else completion_c (g_store s ! x)) = 0)"
    proof (cases "x = h")
      case True
      then show ?thesis using hv(2) hiss hin unfolding in_exec_def by auto
    next
      case False
      then show ?thesis using o by simp
    qed
  qed
  have 7: "inv_upd n t"
    unfolding inv_upd_def S L
  proof (intro ballI)
    fix x assume x: "x \<in> set (st_update s)"
    then have "x \<noteq> h" using hin unfolding in_exec_def by auto
    then show "1 \<le> (if x = h then n else completion_c (g_store s ! x)) \<and>
        (if x = h then n else completion_c (g_store s ! x)) \<le> state_c (g_store s ! x) \<and>
        state_c (g_store s ! x) = n"
      using q(7) x unfolding inv_upd_def by auto
  qed
  have 8: "\<forall>j x. j < length (fu_pool s) \<longrightarrow> j \<noteq> k \<longrightarrow> fu_inst (fu_pool s ! j) = Some x \<longrightarrow>
            (waiting n s j x \<longrightarrow> waiting n t j x) \<and>
            waiting_bus (g_store t ! x) = waiting_bus (g_store s ! x) \<and>
            completion_c (g_store t ! x) = completion_c (g_store s ! x)"
  proof (intro allI impI)
    fix j x assume j: "j < length (fu_pool s)" "j \<noteq> k" "fu_inst (fu_pool s ! j) = Some x"
    then have xh: "x \<noteq> h" using uniq[OF j(1,3)] by simp
    show "(waiting n s j x \<longrightarrow> waiting n t j x) \<and>
            waiting_bus (g_store t ! x) = waiting_bus (g_store s ! x) \<and>
            completion_c (g_store t ! x) = completion_c (g_store s ! x)"
      using xh j(2) unfolding waiting_def P S L by simp
  qed
  have 9: "completion_c (g_store t ! h) = n" unfolding S by simp
  show ?thesis using 1 2 3 4 5 6 7 w 8 9 by blast
qed

lemma tick_execute_units_inv:
  assumes q: "inv_links s0" "inv_held s0" "inv_exec s0" "inv_fu n s0" "inv_bus s0" "inv_idle s0"
      "inv_upd n s0"
    and n: "1 \<le> n"
  shows "inv_links (tick_execute_units n s0) \<and> inv_held (tick_execute_units n s0) \<and>
         inv_exec (tick_execute_units n s0) \<and> inv_fu n (tick_execute_units n s0) \<and>
         inv_bus (tick_execute_units n s0) \<and> inv_idle (tick_execute_units n s0) \<and>
         inv_upd n (tick_execute_units n s0) \<and>
         (\<forall>j h. j < length (fu_pool s0) \<longrightarrow>
            fu_inst (fu_pool (tick_execute_units n s0) ! j) = Some h \<longrightarrow>
            waiting n (tick_execute_units n s0) j h \<and>
            completion_c (g_store (tick_execute_units n s0) ! h) =
              (if waiting_bus (g_store s0 ! h) then completion_c (g_store s0 ! h) else n))"
proof -
  let ?N = "length (fu_pool s0)"
  let ?F = "\<lambda>h. if waiting_bus (g_store s0 ! h) then completion_c (g_store s0 ! h) else n"
  let ?P = "\<lambda>k x. tickQ n x \<and> length (fu_pool x) = ?N \<and>
     (\<forall>j h. j < ?N \<longrightarrow> fu_inst (fu_pool x ! j) = Some h \<longrightarrow>
        (j < k \<longrightarrow> waiting n x j h \<and> completion_c (g_store x ! h) = ?F h) \<and>
        (k \<le> j \<longrightarrow> waiting_bus (g_store x ! h) = waiting_bus (g_store s0 ! h) \<and>
                  completion_c (g_store x ! h) = completion_c (g_store s0 ! h)))"
  have "?P ?N (fold (tick_fu n) [0..<?N] s0)"
  proof (rule fold_upt_induct[where P = ?P])
    show "?P 0 s0" using q by (simp add: tickQ_def)
  next
    fix k x assume k: "k < ?N" and px: "?P k x"
    have qx: "inv_links x" "inv_held x" "inv_exec x" "inv_fu n x" "inv_bus x" "inv_idle x"
      "inv_upd n x" using px by (simp_all add: tickQ_def)
    have lx: "length (fu_pool x) = ?N" using px by simp
    have rel: "\<And>j h. j < ?N \<Longrightarrow> fu_inst (fu_pool x ! j) = Some h \<Longrightarrow>
        (j < k \<longrightarrow> waiting n x j h \<and> completion_c (g_store x ! h) = ?F h) \<and>
        (k \<le> j \<longrightarrow> waiting_bus (g_store x ! h) = waiting_bus (g_store s0 ! h) \<and>
                  completion_c (g_store x ! h) = completion_c (g_store s0 ! h))"
      using px by blast
    show "?P (Suc k) (tick_fu n k x)"
    proof (cases "fu_inst (fu_pool x ! k)")
      case None
      then have e: "tick_fu n k x = x" by (rule tick_fu_idle)
      show ?thesis unfolding e
      proof (intro conjI allI impI)
        show "tickQ n x" using px by blast
        show "length (fu_pool x) = ?N" by (rule lx)
      next
        fix j h' assume j: "j < ?N" "fu_inst (fu_pool x ! j) = Some h'" "j < Suc k"
        have "j \<noteq> k" using j(2) None by auto
        then have jk: "j < k" using j(3) by simp
        show "waiting n x j h'" using rel[OF j(1,2)] jk by blast
        show "completion_c (g_store x ! h') = ?F h'" using rel[OF j(1,2)] jk by blast
      next
        fix j h' assume j: "j < ?N" "fu_inst (fu_pool x ! j) = Some h'" "Suc k \<le> j"
        then have jk: "k \<le> j" by simp
        show "waiting_bus (g_store x ! h') = waiting_bus (g_store s0 ! h')"
          using rel[OF j(1,2)] jk by blast
        show "completion_c (g_store x ! h') = completion_c (g_store s0 ! h')"
          using rel[OF j(1,2)] jk by blast
      qed
    next
      case (Some h)
      have kx: "k < length (fu_pool x)" using k lx by simp
      have sw: "executing x k h \<or> waiting n x k h"
        using qx(4) kx Some unfolding inv_fu_iff by blast
      have relk: "waiting_bus (g_store x ! h) = waiting_bus (g_store s0 ! h)"
        "completion_c (g_store x ! h) = completion_c (g_store s0 ! h)"
        using rel[OF k Some] by simp_all
      show ?thesis
      proof (cases "waiting n x k h")
        case True
        then have e: "tick_fu n k x = x" using Some by (rule tick_fu_waiting[rotated])
        have fk: "completion_c (g_store x ! h) = ?F h"
          using True relk unfolding waiting_def by simp
        show ?thesis unfolding e
        proof (intro conjI allI impI)
          show "tickQ n x" using px by simp
          show "length (fu_pool x) = ?N" by (rule lx)
        next
          fix j h' assume j: "j < ?N" "fu_inst (fu_pool x ! j) = Some h'" "j < Suc k"
          show "waiting n x j h'"
          proof (cases "j = k")
            case True
            then have "h' = h" using j(2) Some by simp
            then show ?thesis using \<open>waiting n x k h\<close> True by simp
          next
            case False
            then have "j < k" using j(3) by simp
            then show ?thesis using rel[OF j(1,2)] by blast
          qed
          show "completion_c (g_store x ! h') = ?F h'"
          proof (cases "j = k")
            case True
            then have "h' = h" using j(2) Some by simp
            then show ?thesis using fk by blast
          next
            case False
            then have "j < k" using j(3) by simp
            then show ?thesis using rel[OF j(1,2)] by blast
          qed
        next
          fix j h' assume j: "j < ?N" "fu_inst (fu_pool x ! j) = Some h'" "Suc k \<le> j"
          show "waiting_bus (g_store x ! h') = waiting_bus (g_store s0 ! h')"
            using rel[OF j(1,2)] j(3) by simp
          show "completion_c (g_store x ! h') = completion_c (g_store s0 ! h')"
            using rel[OF j(1,2)] j(3) by simp
        qed
      next
        case False
        then have ex: "executing x k h" using sw by simp
        have hv: "h < length (g_store x)" using qx(1) kx Some unfolding inv_links_iff by blast
        note e = tick_fu_executing[OF Some ex kx hv, of n]
        note st0 = tick_step_inv[OF qx n kx Some ex e]
        have stQ: "tickQ n (tick_fu n k x)" unfolding tickQ_def using st0 by blast
        have stw: "waiting n (tick_fu n k x) k h" using st0 by blast
        have stc: "completion_c (g_store (tick_fu n k x) ! h) = n" using st0 by blast
        have sto: "\<And>j y. j < length (fu_pool x) \<Longrightarrow> j \<noteq> k \<Longrightarrow>
            fu_inst (fu_pool x ! j) = Some y \<Longrightarrow>
            (waiting n x j y \<longrightarrow> waiting n (tick_fu n k x) j y) \<and>
            waiting_bus (g_store (tick_fu n k x) ! y) = waiting_bus (g_store x ! y) \<and>
            completion_c (g_store (tick_fu n k x) ! y) = completion_c (g_store x ! y)"
          using st0 by blast
        have nw: "\<not> waiting_bus (g_store s0 ! h)" using ex relk unfolding executing_def by simp
        have len: "length (fu_pool (tick_fu n k x)) = ?N" using lx by simp
        show ?thesis
        proof (intro conjI allI impI)
          show "tickQ n (tick_fu n k x)" by (rule stQ)
          show "length (fu_pool (tick_fu n k x)) = ?N" by (rule len)
        next
          fix j h' assume j: "j < ?N" "fu_inst (fu_pool (tick_fu n k x) ! j) = Some h'" "j < Suc k"
          have j2: "fu_inst (fu_pool x ! j) = Some h'" using j(2) by simp
          have jx: "j < length (fu_pool x)" using j(1) lx by simp
          show "waiting n (tick_fu n k x) j h'"
          proof (cases "j = k")
            case True
            then have "h' = h" using j2 Some by simp
            then show ?thesis using stw True by simp
          next
            case False
            then have "waiting n x j h'" using rel[OF j(1) j2] j(3) by simp
            then show ?thesis using sto[OF jx False j2] by blast
          qed
          show "completion_c (g_store (tick_fu n k x) ! h') = ?F h'"
          proof (cases "j = k")
            case True
            then have "h' = h" using j2 Some by simp
            then show ?thesis using stc nw by simp
          next
            case False
            then have "completion_c (g_store x ! h') = ?F h'" using rel[OF j(1) j2] j(3) by simp
            moreover have "completion_c (g_store (tick_fu n k x) ! h') = completion_c (g_store x ! h')"
              using sto[OF jx False j2] by blast
            ultimately show ?thesis by simp
          qed
        next
          fix j h' assume j: "j < ?N" "fu_inst (fu_pool (tick_fu n k x) ! j) = Some h'" "Suc k \<le> j"
          have j2: "fu_inst (fu_pool x ! j) = Some h'" using j(2) by simp
          have jx: "j < length (fu_pool x)" "j \<noteq> k" using j(1,3) lx by simp_all
          have a: "waiting_bus (g_store (tick_fu n k x) ! h') = waiting_bus (g_store x ! h')"
            "completion_c (g_store (tick_fu n k x) ! h') = completion_c (g_store x ! h')"
            using sto[OF jx j2] by blast+
          show "waiting_bus (g_store (tick_fu n k x) ! h') = waiting_bus (g_store s0 ! h')"
            using a rel[OF j(1) j2] j(3) by simp
          show "completion_c (g_store (tick_fu n k x) ! h') = completion_c (g_store s0 ! h')"
            using a rel[OF j(1) j2] j(3) by simp
        qed
      qed
    qed
  qed
  then have r: "tickQ n (tick_execute_units n s0)"
    "\<And>j h. j < ?N \<Longrightarrow> fu_inst (fu_pool (tick_execute_units n s0) ! j) = Some h \<Longrightarrow>
       waiting n (tick_execute_units n s0) j h \<and>
       completion_c (g_store (tick_execute_units n s0) ! h) = ?F h"
    unfolding tick_execute_units_def by blast+
  show ?thesis using r(1) r(2) unfolding tickQ_def by blast
qed


lemma wf_tick_execute_units:
  assumes "wf tr n s" "1 \<le> n"
  shows "wf tr n (tick_execute_units n s)"
proof -
  have w: "inv_links s" "inv_held s" "inv_exec s" "inv_fu n s" "inv_bus s" "inv_idle s"
    "inv_upd n s" using assms(1) by (simp_all add: wf_def)
  note t = tick_execute_units_inv[OF w assms(2)]
  have "inv_fu n (tick_execute_units n s)" "inv_bus (tick_execute_units n s)"
    "inv_idle (tick_execute_units n s)" "inv_upd n (tick_execute_units n s)"
    using t by blast+
  then show ?thesis using assms(1) unfolding wf_def by simp
qed

section \<open>The scenario with a read-after-write dependency\<close>

lemma trace_raw_loop:
  "case run_loop 0 (boot 1 1 1 1 1 trace_raw) of
     Some (Inr (c, s)) \<Rightarrow> c = 8 \<and> g_retired s = 2 \<and> g_next_tag s = 3
   | _ \<Rightarrow> False"
  by code_simp

lemma trace_raw_events:
  "broadcasts_at 4 0 (boot 1 1 1 1 1 trace_raw) \<and>
   issued_in_cycle (4 + 1) 1 (boot 1 1 1 1 1 trace_raw) \<and>
   started_in_cycle 6 1 (boot 1 1 1 1 1 trace_raw)"
  by code_simp

text \<open>
  Claim C2: on the trace \<open>[(0, 1, -1, -1), (0, 2, 1, -1)]\<close> with F = 1, R = 1,
  K = (1, 1, 1), \<open>run_proc\<close> reports \<open>cycle_count = 7\<close> and \<open>retired_instruction = 2\<close>,
  and the second instruction issues one cycle after the first broadcasts its result.
  The cycles are those of the spec's law for one instruction (exec@4, broadcast@4,
  state-update@5): the first instruction (handle 0) executes in cycle 4 and is put on the
  state-update list, its result published, by the broadcast stage of the loop's fifth
  iteration, with \<open>state_c = 5\<close>; the second (handle 1) is issued in cycle 5 and
  executes in cycle 6.
\<close>

theorem C2_raw_scenario:
  "(\<exists>s'. run_proc (setup_proc 1 1 1 1 1 (s\<lparr>source := trace_raw\<rparr>)) (Some p) =
      Some (Inr (s', Some (p\<lparr>cycle_count := 7, retired_instruction := 2\<rparr>)))) \<and>
   broadcasts_at 4 0 (setup_proc 1 1 1 1 1 (s\<lparr>source := trace_raw\<rparr>)) \<and>
   issued_in_cycle (4 + 1) 1 (setup_proc 1 1 1 1 1 (s\<lparr>source := trace_raw\<rparr>)) \<and>
   started_in_cycle 6 1 (setup_proc 1 1 1 1 1 (s\<lparr>source := trace_raw\<rparr>))"
proof -
  have "\<exists>s'. run_proc (boot 1 1 1 1 1 trace_raw) (Some p) =
      Some (Inr (s', Some (p\<lparr>cycle_count := 7, retired_instruction := 2\<rparr>)))"
    using trace_raw_loop
    by (auto simp add: run_proc_def run_exit_def split: option.splits sum.splits)
  then show ?thesis
    using trace_raw_events by (simp add: setup_proc_source_only)
qed

theorem C2_raw_scenario_witness:
  "stat_of cycle_count (simulate 1 1 1 1 1 trace_raw) = Some 7 \<and>
   stat_of retired_instruction (simulate 1 1 1 1 1 trace_raw) = Some 2 \<and>
   broadcasts_at 4 0 (boot 1 1 1 1 1 trace_raw) \<and>
   issued_in_cycle 5 1 (boot 1 1 1 1 1 trace_raw)"
  using C2_raw_scenario [of "globals_at_start 0 0 [0, 0, 0] trace_raw" stats0]
  by (auto simp add: setup_proc_source_only simulate_def stat_of_def complete_proc_def)

section \<open>Completion and state update of a single instruction\<close>

text \<open>
  Claim C6, as stated: no retired instruction has \<open>state_c\<close> equal to \<open>completion_c\<close>.
  The only instruction of the one-instruction trace retires with both equal to 5.
\<close>

theorem C6_state_c_equals_completion_c:
  "stat_of retired_instruction (simulate 1 1 1 1 1 trace_single) = Some 1 \<and>
   inst_of 0 completion_c (simulate 1 1 1 1 1 trace_single) = Some 5 \<and>
   inst_of 0 state_c (simulate 1 1 1 1 1 trace_single) = Some 5"
  by code_simp

section \<open>A larger pool that slows the run down\<close>

text \<open>
  Claim C8, as stated: enlarging one of R, F, K0, K1, K2 never increases \<open>cycle_count\<close>
  and never decreases \<open>avg_inst_retired\<close>. With R = 2, F = 4, K1 = 1, K2 = 0 the trace
  of two type-0 and two type-1 instructions takes 6 cycles for K0 = 1 and 7 cycles for
  K0 = 2, and the retirement rate falls from 4/6 to 4/7.
\<close>

theorem C8_more_units_more_cycles:
  "stat_of cycle_count (simulate 2 1 1 0 4 trace_mixed) = Some 6 \<and>
   stat_of cycle_count (simulate 2 2 1 0 4 trace_mixed) = Some 7 \<and>
   stat_of avg_inst_retired (simulate 2 1 1 0 4 trace_mixed) = Some (4 / 6) \<and>
   stat_of avg_inst_retired (simulate 2 2 1 0 4 trace_mixed) = Some (4 / 7)"
  by code_simp


section \<open>The one-instruction trace\<close>

text \<open>
  Claim C1: for a trace of exactly one instruction of type 0 (any \<open>op_code\<close> that
  \<open>fu_type_from_opcode\<close> maps to type 0: 0, 3, 6, ...) with \<open>dest_reg = -1\<close> and
  \<open>src_reg = [-1, -1]\<close>, under any configuration with \<open>F \<ge> 1\<close> and \<open>K0 \<ge> 1\<close>
  (whatever R, K1, K2 and the state of the globals before setup), \<open>run_proc\<close> returns
  and reports \<open>cycle_count = 5\<close> and \<open>retired_instruction = 1\<close>.
\<close>

theorem C1_single_instruction:
  assumes "0 < f" and "0 < k0"
    and "fu_type_from_opcode (op_code x) = 0"
    and "dest_reg x = -1" and "src_reg0 x = -1" and "src_reg1 x = -1"
  shows "\<exists>s'. run_proc (setup_proc r k0 k1 k2 f (s\<lparr>source := [x]\<rparr>)) (Some p) =
           Some (Inr (s', Some (p\<lparr>cycle_count := 5, retired_instruction := 1\<rparr>)))"
proof -
  from single_run[OF assms, of r k1 k2 s] obtain s6 where
    s6: "run_loop 0 (setup_proc r k0 k1 k2 f (s\<lparr>source := [x]\<rparr>)) = Some (Inr (6, s6))"
      "phase6 s6" by blast
  then show ?thesis
    by (simp add: run_proc_def run_exit_def phase6_def)
qed

theorem C1_single_instruction_witness:
  "0 < (3::nat) \<and> 0 < (2::nat) \<and>
   fu_type_from_opcode (op_code (instr 6 (-1) (-1) (-1))) = 0 \<and>
   stat_of cycle_count (simulate 1 2 0 1 3 [instr 6 (-1) (-1) (-1)]) = Some 5 \<and>
   stat_of retired_instruction (simulate 1 2 0 1 3 [instr 6 (-1) (-1) (-1)]) = Some 1"
proof -
  have h: "0 < (3::nat)" "0 < (2::nat)" by simp_all
  have x: "fu_type_from_opcode (op_code (instr 6 (-1) (-1) (-1))) = 0"
    "dest_reg (instr 6 (-1) (-1) (-1)) = -1" "src_reg0 (instr 6 (-1) (-1) (-1)) = -1"
    "src_reg1 (instr 6 (-1) (-1) (-1)) = -1"
    by (simp_all add: instr_def fu_type_from_opcode_def kTypes_def)
  from C1_single_instruction[OF h x, of 1 0 1
      "globals_at_start 0 0 [0, 0, 0] [instr 6 (-1) (-1) (-1)]" stats0]
  show ?thesis using x(1)
    by (auto simp add: setup_proc_source_only simulate_def stat_of_def complete_proc_def)
qed

section \<open>The lookahead against its reference\<close>

text \<open>
  Claim C3: for every pool of units, bus-wait state and current cycle (the pool holding
  units of the three types and instructions of the store), the lookahead returns, for
  each type, the count of the reference definition \<open>lookahead_reference\<close>: the idle
  units of the type, plus the units of the type among the first \<open>min R n\<close> of the \<open>n\<close>
  candidates sorted by free cycle ascending, then tag ascending, a candidate being a busy
  unit whose instruction waits for the bus (free cycle \<open>completion_c\<close>) or whose
  \<open>remaining\<close> is 1 (free cycle \<open>cycle + 1\<close> in 64-bit unsigned arithmetic). The
  reference sorts with the library's \<open>sort_key\<close> on the pair of free cycle and tag in
  lexicographic order; the source sorts with its own comparator.
\<close>

theorem C3_lookahead_is_reference:
  assumes "pool_ok s"
  shows "projected_free_fus cycle s = map (lookahead_reference cycle s) [0..<kTypes]"
proof (rule nth_equalityI)
  show "length (projected_free_fus cycle s) = length (map (lookahead_reference cycle s) [0..<kTypes])"
    by (simp add: kTypes_def)
next
  fix t assume "t < length (projected_free_fus cycle s)"
  then have t: "t < kTypes" by (simp add: kTypes_def)
  then show "projected_free_fus cycle s ! t = map (lookahead_reference cycle s) [0..<kTypes] ! t"
    by (simp add: projected_free_fus_reference)
qed

theorem C3_lookahead_is_reference_witness:
  "pool_ok (state_after 4 (boot 1 1 1 0 2 trace_swapped)) \<and>
   map fu_type (fu_pool (state_after 4 (boot 1 1 1 0 2 trace_swapped))) = [0, 1] \<and>
   map (candidate_key (g_store (state_after 4 (boot 1 1 1 0 2 trace_swapped))))
     (candidates_of (g_store (state_after 4 (boot 1 1 1 0 2 trace_swapped))) 4
        (fu_pool (state_after 4 (boot 1 1 1 0 2 trace_swapped)))) = [(5, 2), (5, 1)] \<and>
   projected_free_fus 4 (state_after 4 (boot 1 1 1 0 2 trace_swapped)) = [0, 1, 0] \<and>
   map (lookahead_reference 4 (state_after 4 (boot 1 1 1 0 2 trace_swapped))) [0..<kTypes]
     = [0, 1, 0]"
proof -
  have h: "pool_ok (state_after 4 (boot 1 1 1 0 2 trace_swapped))" by code_simp
  have v: "projected_free_fus 4 (state_after 4 (boot 1 1 1 0 2 trace_swapped)) = [0, 1, 0]"
    by code_simp
  have p: "map fu_type (fu_pool (state_after 4 (boot 1 1 1 0 2 trace_swapped))) = [0, 1]"
    by code_simp
  have k: "map (candidate_key (g_store (state_after 4 (boot 1 1 1 0 2 trace_swapped))))
     (candidates_of (g_store (state_after 4 (boot 1 1 1 0 2 trace_swapped))) 4
        (fu_pool (state_after 4 (boot 1 1 1 0 2 trace_swapped)))) = [(5, 2), (5, 1)]"
    by code_simp
  from C3_lookahead_is_reference[OF h, of 4] v
  have "map (lookahead_reference 4 (state_after 4 (boot 1 1 1 0 2 trace_swapped))) [0..<kTypes]
          = [0, 1, 0]" by simp
  with h v p k show ?thesis by simp
qed

section \<open>The width of the common data bus\<close>

text \<open>
  Claim C5: in every cycle of every run at most R instructions leave \<open>bus_wait\<close>, where
  R is the configured width and a configured 0 counts as 1. For the state \<open>s\<close> at the
  head of the loop after any number of iterations from \<open>setup_proc\<close>, the broadcast
  stage of the next cycle works on the state left by the retire and tick stages; it
  keeps of the sorted bus-wait list all but the first \<open>gR\<close> entries, \<open>gR\<close> being the
  normalised width, so that at most that many leave.
\<close>

theorem C5_at_most_R_leave_bus_wait:
  assumes "loop_iter n 0 (setup_proc r k0 k1 k2 f s0) = Some (c, s)"
  shows "gR (tick_execute_units (c + 1) (retire_state_update s)) = (if r = 0 then 1 else r) \<and>
         bus_wait (broadcast_results (c + 1) (tick_execute_units (c + 1) (retire_state_update s))) =
           drop (if r = 0 then 1 else r)
             (sort_by (bus_less (g_store (tick_execute_units (c + 1) (retire_state_update s))))
                (bus_wait (tick_execute_units (c + 1) (retire_state_update s)))) \<and>
         set (bus_wait (broadcast_results (c + 1)
                (tick_execute_units (c + 1) (retire_state_update s))))
           \<subseteq> set (bus_wait (tick_execute_units (c + 1) (retire_state_update s))) \<and>
         length (bus_wait (tick_execute_units (c + 1) (retire_state_update s)))
           - length (bus_wait (broadcast_results (c + 1)
                (tick_execute_units (c + 1) (retire_state_update s))))
           \<le> (if r = 0 then 1 else r)"
proof -
  define pre where "pre = tick_execute_units (c + 1) (retire_state_update s)"
  define post where "post = broadcast_results (c + 1) pre"
  have R: "gR pre = (if r = 0 then 1 else r)"
    using loop_iter_config[OF assms] by (simp add: pre_def setup_proc_def)
  have bw: "bus_wait post = drop (gR pre) (sort_by (bus_less (g_store pre)) (bus_wait pre))"
    unfolding post_def by (simp add: broadcast_results_closed)
  have sub: "set (bus_wait post) \<subseteq> set (bus_wait pre)"
    unfolding bw using set_drop_subset[of "gR pre" "sort_by (bus_less (g_store pre)) (bus_wait pre)"]
    by simp
  have len: "length (bus_wait pre) - length (bus_wait post) \<le> gR pre"
    unfolding bw by simp
  show ?thesis
    using R bw sub len unfolding pre_def post_def by simp
qed

theorem C5_at_most_R_leave_bus_wait_witness:
  "loop_iter 4 0 (boot 2 2 1 0 4 trace_mixed) = Some (4, state_after 4 (boot 2 2 1 0 4 trace_mixed)) \<and>
   length (bus_wait (tick_execute_units 5
      (retire_state_update (state_after 4 (boot 2 2 1 0 4 trace_mixed))))) = 3 \<and>
   length (bus_wait (broadcast_results 5 (tick_execute_units 5
      (retire_state_update (state_after 4 (boot 2 2 1 0 4 trace_mixed)))))) = 1"
proof -
  have h: "loop_iter 4 0 (boot 2 2 1 0 4 trace_mixed) =
      Some (4, state_after 4 (boot 2 2 1 0 4 trace_mixed))" by code_simp
  have a: "length (bus_wait (tick_execute_units 5
      (retire_state_update (state_after 4 (boot 2 2 1 0 4 trace_mixed))))) = 3" by code_simp
  have "length (bus_wait (tick_execute_units 5
      (retire_state_update (state_after 4 (boot 2 2 1 0 4 trace_mixed)))))
    - length (bus_wait (broadcast_results 5 (tick_execute_units 5
      (retire_state_update (state_after 4 (boot 2 2 1 0 4 trace_mixed)))))) \<le> 2"
    using C5_at_most_R_leave_bus_wait[OF h[unfolded boot_def]] by (simp add: boot_def)
  moreover have "length (bus_wait (broadcast_results 5 (tick_execute_units 5
      (retire_state_update (state_after 4 (boot 2 2 1 0 4 trace_mixed)))))) \<le> 1"
    by code_simp
  ultimately show ?thesis using h a by simp
qed

section \<open>The empty trace\<close>

text \<open>
  Claim C7: for an empty trace (the source signals EOF on the first read, which takes a
  fetch width of at least 1) \<open>run_proc\<close> reports \<open>cycle_count = 0\<close> and
  \<open>retired_instruction = 0\<close>, and \<open>complete_proc\<close> then sets the three averages and
  \<open>max_disp_size\<close> to 0.
\<close>

theorem C7_empty_trace:
  assumes "0 < f"
  shows "\<exists>s'. run_proc (setup_proc r k0 k1 k2 f (s\<lparr>source := []\<rparr>)) (Some p) =
           Some (Inr (s', Some (p\<lparr>cycle_count := 0, retired_instruction := 0\<rparr>))) \<and>
         complete_proc s' (Some (p\<lparr>cycle_count := 0, retired_instruction := 0\<rparr>)) =
           Some (p\<lparr>cycle_count := 0, retired_instruction := 0, avg_inst_fired := 0,
                   avg_inst_retired := 0, avg_disp_size := 0, max_disp_size := 0\<rparr>)"
proof -
  let ?S = "setup_proc r k0 k1 k2 f (s\<lparr>source := []\<rparr>)"
  let ?T = "?S\<lparr>g_trace_done := True\<rparr>"
  have q: "quiet ?S" by (rule setup_proc_quiet)
  have f: "gF ?S = f" "\<not> g_trace_done ?S" "source ?S = []" "g_next_tag ?S = 1"
    by (simp_all add: setup_proc_def)
  have step: "proc_cycle 1 ?S = Inr ?T"
    using quiet_eof[OF q, of 1] f assms by simp
  have qT: "quiet ?T" using q by (simp add: quiet_def)
  have "run_loop 1 ?T = Some (Inr (1, ?T))"
    by (subst run_loop.simps) (simp add: quiet_pipeline_empty[OF qT])
  then have "run_loop 0 ?S = Some (Inr (1, ?T))"
    using f(2) step by (subst run_loop.simps) simp
  then have "run_proc ?S (Some p) =
      Some (Inr (?T, Some (p\<lparr>cycle_count := 0, retired_instruction := 0\<rparr>)))"
    using f(4) by (simp add: run_proc_def run_exit_def)
  moreover have "complete_proc ?T (Some (p\<lparr>cycle_count := 0, retired_instruction := 0\<rparr>)) =
           Some (p\<lparr>cycle_count := 0, retired_instruction := 0, avg_inst_fired := 0,
                   avg_inst_retired := 0, avg_disp_size := 0, max_disp_size := 0\<rparr>)"
    by (simp add: complete_proc_def)
  ultimately show ?thesis by blast
qed


theorem C7_empty_trace_witness:
  "0 < (2::nat) \<and>
   stat_of cycle_count (simulate 1 1 1 1 2 []) = Some 0 \<and>
   stat_of retired_instruction (simulate 1 1 1 1 2 []) = Some 0 \<and>
   stat_of avg_inst_fired (simulate 1 1 1 1 2 []) = Some 0 \<and>
   stat_of avg_inst_retired (simulate 1 1 1 1 2 []) = Some 0 \<and>
   stat_of avg_disp_size (simulate 1 1 1 1 2 []) = Some 0 \<and>
   stat_of max_disp_size (simulate 1 1 1 1 2 []) = Some 0"
proof -
  have h: "0 < (2::nat)" by simp
  from C7_empty_trace[OF h, of 1 1 1 1 "globals_at_start 0 0 [0, 0, 0] []" stats0]
  show ?thesis
    by (auto simp add: setup_proc_source_only simulate_def stat_of_def)
qed

section \<open>A fetch width of zero\<close>

text \<open>
  Claim C10: after \<open>setup_proc\<close> with fetch width \<open>F = 0\<close>, \<open>run_proc\<close> never returns, for
  any trace (the empty one included): every iteration of the loop leaves the state as
  \<open>setup_proc\<close> made it, so that the source is never read and the trace-exhausted flag
  never set.
\<close>

theorem C10_zero_fetch_width_never_returns:
  "run_proc (setup_proc r k0 k1 k2 0 s) (Some p) = None \<and>
   loop_iter n 0 (setup_proc r k0 k1 k2 0 s) = Some (n, setup_proc r k0 k1 k2 0 s) \<and>
   source (setup_proc r k0 k1 k2 0 s) = source s \<and>
   \<not> g_trace_done (setup_proc r k0 k1 k2 0 s)"
proof -
  let ?S = "setup_proc r k0 k1 k2 0 s"
  have q: "quiet ?S" by (rule setup_proc_quiet)
  have f: "gF ?S = 0" "\<not> g_trace_done ?S" "source ?S = source s" by (simp_all add: setup_proc_def)
  have "run_loop 0 ?S = None"
  proof (rule run_loop_diverges[where I = "\<lambda>c x. quiet x \<and> gF x = 0 \<and> \<not> g_trace_done x"])
    show "quiet ?S \<and> gF ?S = 0 \<and> \<not> g_trace_done ?S" using q f by simp
  next
    fix c x assume "quiet x \<and> gF x = 0 \<and> \<not> g_trace_done x"
    then show "(\<not> g_trace_done x \<or> \<not> pipeline_empty x) \<and>
        (\<exists>s'. proc_cycle (c + 1) x = Inr s' \<and> quiet s' \<and> gF s' = 0 \<and> \<not> g_trace_done s')"
      by (simp add: quiet_no_fetch)
  qed
  then have "run_proc ?S (Some p) = None" by (simp add: run_proc_def)
  moreover have "loop_iter n 0 ?S = Some (n, ?S)"
    using zero_width_loop[OF q f(1) f(2), of n 0] by simp
  ultimately show ?thesis using f by simp
qed


theorem C10_zero_fetch_width_never_returns_witness:
  "run_proc (boot 1 1 1 1 0 []) (Some stats0) = None \<and>
   run_proc (boot 1 1 1 1 0 trace_raw) (Some stats0) = None \<and>
   loop_iter 7 0 (boot 1 1 1 1 0 trace_raw) = Some (7, boot 1 1 1 1 0 trace_raw)"
  using C10_zero_fetch_width_never_returns[of 1 1 1 1 "globals_at_start 0 0 [0, 0, 0] []" stats0 7]
    C10_zero_fetch_width_never_returns[of 1 1 1 1 "globals_at_start 0 0 [0, 0, 0] trace_raw" stats0 7]
  by (simp add: boot_def)

end
